theory Spec2Isabelle
  imports Complex_Main "HOL-Library.Sublist"
begin

section \<open>Python exceptions and results\<close>

text \<open>
  The exceptions that occur in \<^verbatim>\<open>session_keeper.py\<close>. \<open>KeyError\<close> carries the missing key,
  \<open>SystemExit\<close> the exit code, \<open>PlainException\<close> is the \<^verbatim>\<open>Exception(...)\<close> raised at line 151.
  \<open>KeyboardInterrupt\<close> and \<open>SystemExit\<close> derive from \<^verbatim>\<open>BaseException\<close> only, so an
  \<^verbatim>\<open>except Exception\<close> clause does not catch them; \<open>TimeoutException\<close> and
  \<open>NoSuchElementException\<close> are subclasses of \<open>WebDriverException\<close>.
\<close>

datatype exn =
    KeyError string
  | AttributeError
  | FileNotFoundError
  | JSONDecodeError
  | WebDriverException
  | TimeoutException
  | NoSuchElementException
  | PlainException
  | KeyboardInterrupt
  | SystemExit int

fun is_Exception :: "exn \<Rightarrow> bool" where
  "is_Exception KeyboardInterrupt = False"
| "is_Exception (SystemExit c) = False"
| "is_Exception e = True"

fun is_WebDriverException :: "exn \<Rightarrow> bool" where
  "is_WebDriverException WebDriverException = True"
| "is_WebDriverException TimeoutException = True"
| "is_WebDriverException NoSuchElementException = True"
| "is_WebDriverException e = False"

fun is_TimeoutException :: "exn \<Rightarrow> bool" where
  "is_TimeoutException TimeoutException = True"
| "is_TimeoutException e = False"

text \<open>A call either returns a value or raises.\<close>

datatype 'a outcome = Returns 'a | Raises exn

section \<open>The configuration\<close>

text \<open>
  \<^verbatim>\<open>config.json\<close> as parsed by \<^verbatim>\<open>json.load\<close>: nested dictionaries. Every key may be absent
  (\<open>None\<close>); a present value has the JSON type the code uses it at.
\<close>

record credentials =
  username :: "string option"
  password :: "string option"

record form_fields =
  username_field :: "string option"
  password_field :: "string option"
  submit_button :: "string option"

record session_settings =
  headless :: "bool option"
  timeout :: "rat option"
  refresh_interval :: "rat option"
  max_retries :: "int option"

record config =
  login_url :: "string option"
  session_url :: "string option"
  credentials :: "credentials option"
  form_fields :: "form_fields option"
  session_settings :: "session_settings option"

section \<open>The external collaborators\<close>

text \<open>
  The calls the program makes to the Selenium driver, to the elements it found and to
  \<^verbatim>\<open>time.sleep\<close>. An element handle is identified with the locator that found it.
\<close>

datatype locator_kind = NAME | ID | XPATH

type_synonym locator = "locator_kind \<times> string"

datatype call =
    Launch bool
  | Get string
  | WaitUntil locator rat
  | FindElement locator
  | Clear locator
  | SendKeys locator string
  | Click locator
  | CurrentUrl
  | Refresh
  | Quit
  | Sleep rat

fun is_browser_call :: "call \<Rightarrow> bool" where
  "is_browser_call (Sleep d) = False"
| "is_browser_call c = True"

text \<open>An event is a call together with the exception it raised, if any.\<close>

type_synonym event = "call \<times> exn option"

text \<open>
  The world decides, from the history of events so far, whether the next call raises, and
  what the browser's current URL is. The program is verified against every world.
\<close>

record world =
  raises :: "event list \<Rightarrow> call \<Rightarrow> exn option"
  url :: "event list \<Rightarrow> string"

section \<open>The SessionKeeper object\<close>

datatype webdriver = Chrome

text \<open>
  The fields of \<^verbatim>\<open>SessionKeeper\<close> (lines 40-42), and the history of the external calls made
  so far.
\<close>

record session_keeper =
  config :: config
  driver :: "webdriver option"
  is_logged_in :: bool
  trace :: "event list"

text \<open>Sequencing of statements: an exception ends the sequence.\<close>

definition andThen ::
  "('s \<Rightarrow> 'a outcome \<times> 's) \<Rightarrow> ('a \<Rightarrow> 's \<Rightarrow> 'b outcome \<times> 's) \<Rightarrow> 's \<Rightarrow> 'b outcome \<times> 's" where
  "andThen m f s = (case m s of (Returns x, s') \<Rightarrow> f x s' | (Raises e, s') \<Rightarrow> (Raises e, s'))"

text \<open>
  \<^verbatim>\<open>try: ... except ...\<close>: the handler maps the exception of the body to the result of the
  statement, which is a value (\<^verbatim>\<open>return\<close> in the handler) or an exception (one the
  clauses do not catch, or one the handler raises).
\<close>

definition try_except ::
  "('s \<Rightarrow> 'a outcome \<times> 's) \<Rightarrow> (exn \<Rightarrow> 'a outcome) \<Rightarrow> 's \<Rightarrow> 'a outcome \<times> 's" where
  "try_except m h s = (case m s of (Returns x, s') \<Rightarrow> (Returns x, s') | (Raises e, s') \<Rightarrow> (h e, s'))"

definition ret :: "'a \<Rightarrow> 's \<Rightarrow> 'a outcome \<times> 's" where
  "ret x s = (Returns x, s)"

definition raise_exn :: "exn \<Rightarrow> 's \<Rightarrow> 'a outcome \<times> 's" where
  "raise_exn e s = (Raises e, s)"

text \<open>\<^verbatim>\<open>d[k]\<close> on a dictionary: \<open>KeyError\<close> when the key is absent.\<close>

definition getitem :: "string \<Rightarrow> 'a option \<Rightarrow> 's \<Rightarrow> 'a outcome \<times> 's" where
  "getitem k v s = (case v of None \<Rightarrow> (Raises (KeyError k), s) | Some x \<Rightarrow> (Returns x, s))"

text \<open>An external call: the world decides its outcome, the event is recorded.\<close>

definition perform :: "world \<Rightarrow> call \<Rightarrow> session_keeper \<Rightarrow> unit outcome \<times> session_keeper" where
  "perform w c s =
     ((case raises w (trace s) c of None \<Rightarrow> Returns () | Some e \<Rightarrow> Raises e),
      s\<lparr>trace := trace s @ [(c, raises w (trace s) c)]\<rparr>)"

text \<open>
  A method call on \<^verbatim>\<open>self.driver\<close>: while the field is still \<^verbatim>\<open>None\<close> the attribute
  access raises \<open>AttributeError\<close> and the browser is not reached.
\<close>

definition driver_call :: "world \<Rightarrow> call \<Rightarrow> session_keeper \<Rightarrow> unit outcome \<times> session_keeper" where
  "driver_call w c s =
     (case driver s of None \<Rightarrow> (Raises AttributeError, s) | Some d \<Rightarrow> perform w c s)"

text \<open>The property \<^verbatim>\<open>self.driver.current_url\<close> (line 160).\<close>

definition current_url :: "world \<Rightarrow> session_keeper \<Rightarrow> string outcome \<times> session_keeper" where
  "current_url w s =
     (case driver_call w CurrentUrl s of
        (Raises e, s') \<Rightarrow> (Raises e, s')
      | (Returns u, s') \<Rightarrow> (Returns (url w (trace s)), s'))"

section \<open>Loading the configuration (lines 33-56)\<close>

text \<open>
  The argument is the result of opening and parsing the file: the parsed dictionary, or the
  exception that \<^verbatim>\<open>open\<close> or \<^verbatim>\<open>json.load\<close> raised. The two handled exceptions end the
  process through \<^verbatim>\<open>sys.exit(1)\<close>; nothing else is checked.
\<close>

definition load_config :: "exn + config \<Rightarrow> config outcome" where
  "load_config src =
     (case src of
        Inr cfg \<Rightarrow> Returns cfg
      | Inl e \<Rightarrow>
          if e = FileNotFoundError then Raises (SystemExit 1)
          else if e = JSONDecodeError then Raises (SystemExit 1)
          else Raises e)"

definition init :: "exn + config \<Rightarrow> session_keeper outcome" where
  "init src =
     (case load_config src of
        Raises e \<Rightarrow> Raises e
      | Returns cfg \<Rightarrow>
          Returns \<lparr>config = cfg, driver = None, is_logged_in = False, trace = []\<rparr>)"

section \<open>Driver setup (lines 58-81)\<close>

definition setup_driver :: "world \<Rightarrow> session_keeper \<Rightarrow> unit outcome \<times> session_keeper" where
  "setup_driver w s =
     try_except
       (andThen (getitem ''session_settings'' (session_settings (config s)))
       (\<lambda>ss. andThen (perform w (Launch (case headless ss of None \<Rightarrow> False | Some b \<Rightarrow> b)))
       (\<lambda>_ s'. (Returns (), s'\<lparr>driver := Some Chrome\<rparr>))))
       (\<lambda>e. if is_WebDriverException e then Raises (SystemExit 1) else Raises e) s"

section \<open>Login (lines 83-174)\<close>

text \<open>
  One attempt of the fallback chain (lines 118-148): skipped when a button was already
  found; an \<^verbatim>\<open>Exception\<close> raised by the lookup is swallowed.
\<close>

definition try_find ::
  "world \<Rightarrow> locator \<Rightarrow> locator option \<Rightarrow> session_keeper \<Rightarrow> locator option outcome \<times> session_keeper" where
  "try_find w l found s =
     (case found of
        Some b \<Rightarrow> (Returns (Some b), s)
      | None \<Rightarrow>
          try_except (andThen (driver_call w (FindElement l)) (\<lambda>_. ret (Some l)))
            (\<lambda>e. if is_Exception e then Returns None else Raises e) s)"

text \<open>Lines 113-151: locating the submit control.\<close>

definition resolve_submit ::
  "world \<Rightarrow> string \<Rightarrow> session_keeper \<Rightarrow> locator outcome \<times> session_keeper" where
  "resolve_submit w submit_xpath =
     andThen (if submit_xpath \<noteq> [] then try_find w (XPATH, submit_xpath) None else ret None)
     (\<lambda>b1. andThen (try_find w (ID, ''loginbtn'') b1)
     (\<lambda>b2. andThen (try_find w (XPATH, ''//button[@type='submit']'') b2)
     (\<lambda>b3. andThen (try_find w (XPATH, ''//input[@type='submit']'') b3)
     (\<lambda>b4. case b4 of None \<Rightarrow> raise_exn PlainException | Some b \<Rightarrow> ret b))))"

text \<open>Lines 93-111: opening the login page and filling the two fields.\<close>

definition fill_form ::
  "world \<Rightarrow> string \<Rightarrow> credentials \<Rightarrow> form_fields \<Rightarrow> rat \<Rightarrow> session_keeper
     \<Rightarrow> unit outcome \<times> session_keeper" where
  "fill_form w lurl creds ff t =
     andThen (driver_call w (Get lurl))
     (\<lambda>_. andThen (getitem ''username_field'' (username_field ff))
     (\<lambda>uf. andThen (driver_call w (WaitUntil (NAME, uf) t))
     (\<lambda>_. andThen (perform w (Clear (NAME, uf)))
     (\<lambda>_. andThen (getitem ''username'' (username creds))
     (\<lambda>u. andThen (perform w (SendKeys (NAME, uf) u))
     (\<lambda>_. andThen (getitem ''password_field'' (password_field ff))
     (\<lambda>pf. andThen (driver_call w (FindElement (NAME, pf)))
     (\<lambda>_. andThen (perform w (Clear (NAME, pf)))
     (\<lambda>_. andThen (getitem ''password'' (password creds))
     (\<lambda>p. perform w (SendKeys (NAME, pf) p)))))))))))"

text \<open>
  Lines 153-167: the click, the fixed settle period of 3 seconds, and the comparison of
  the browser's URL with \<^verbatim>\<open>login_url\<close>.
\<close>

definition submit_and_check ::
  "world \<Rightarrow> string \<Rightarrow> locator \<Rightarrow> session_keeper \<Rightarrow> bool outcome \<times> session_keeper" where
  "submit_and_check w lurl btn =
     andThen (perform w (Click btn))
     (\<lambda>_. andThen (perform w (Sleep 3))
     (\<lambda>_. andThen (current_url w)
     (\<lambda>cur s. if cur \<noteq> lurl then (Returns True, s\<lparr>is_logged_in := True\<rparr>)
              else (Returns False, s))))"

text \<open>The body of the \<^verbatim>\<open>try\<close> block, lines 93-167.\<close>

definition login_body ::
  "world \<Rightarrow> string \<Rightarrow> credentials \<Rightarrow> form_fields \<Rightarrow> rat \<Rightarrow> session_keeper
     \<Rightarrow> bool outcome \<times> session_keeper" where
  "login_body w lurl creds ff t =
     andThen (fill_form w lurl creds ff t)
     (\<lambda>_. andThen (resolve_submit w (case submit_button ff of None \<Rightarrow> [] | Some x \<Rightarrow> x))
     (\<lambda>btn. submit_and_check w lurl btn))"

definition login :: "world \<Rightarrow> session_keeper \<Rightarrow> bool outcome \<times> session_keeper" where
  "login w s =
     andThen (getitem ''login_url'' (login_url (config s)))
     (\<lambda>lurl. andThen (getitem ''credentials'' (credentials (config s)))
     (\<lambda>creds. andThen (getitem ''form_fields'' (form_fields (config s)))
     (\<lambda>ff. andThen (getitem ''session_settings'' (session_settings (config s)))
     (\<lambda>ss. andThen (getitem ''timeout'' (timeout ss))
     (\<lambda>t. try_except (login_body w lurl creds ff t)
        (\<lambda>e. if is_TimeoutException e then Returns False
             else if is_Exception e then Returns False
             else Raises e)))))) s"

section \<open>Navigation and refresh (lines 176-197)\<close>

definition navigate_to_session_url :: "world \<Rightarrow> session_keeper \<Rightarrow> bool outcome \<times> session_keeper" where
  "navigate_to_session_url w s =
     andThen (getitem ''session_url'' (session_url (config s)))
     (\<lambda>surl. try_except
        (andThen (driver_call w (Get surl)) (\<lambda>_. andThen (perform w (Sleep 2)) (\<lambda>_. ret True)))
        (\<lambda>e. if is_Exception e then Returns False else Raises e)) s"

definition refresh_page :: "world \<Rightarrow> session_keeper \<Rightarrow> bool outcome \<times> session_keeper" where
  "refresh_page w =
     try_except (andThen (driver_call w Refresh) (\<lambda>_. ret True))
       (\<lambda>e. if is_Exception e then Returns False else Raises e)"

section \<open>The keepalive loop (lines 199-224)\<close>

text \<open>
  The handler of line 222: \<open>KeyboardInterrupt\<close> becomes the result \<^verbatim>\<open>True\<close>, any other
  exception leaves the method.
\<close>

definition on_interrupt :: "exn \<Rightarrow> bool outcome" where
  "on_interrupt e = (if e = KeyboardInterrupt then Returns True else Raises e)"

text \<open>
  The \<^verbatim>\<open>while True\<close> loop may run forever, so the model runs it for at most a given number of
  cycles: \<open>Running rc\<close> says that the loop is still running after that many cycles, with
  \<^verbatim>\<open>retry_count = rc\<close>; \<open>Exited r\<close> that the method has returned or raised.
\<close>

datatype loop_result = Running int | Exited "bool outcome"

fun keepalive_loop ::
  "world \<Rightarrow> rat \<Rightarrow> int \<Rightarrow> nat \<Rightarrow> int \<Rightarrow> session_keeper \<Rightarrow> loop_result \<times> session_keeper" where
  "keepalive_loop w ri mr 0 rc s = (Running rc, s)"
| "keepalive_loop w ri mr (Suc n) rc s =
     (case perform w (Sleep ri) s of
        (Raises e, s1) \<Rightarrow> (Exited (on_interrupt e), s1)
      | (Returns u, s1) \<Rightarrow>
          (case refresh_page w s1 of
             (Raises e, s2) \<Rightarrow> (Exited (on_interrupt e), s2)
           | (Returns ok, s2) \<Rightarrow>
               if ok then keepalive_loop w ri mr n 0 s2
               else if rc + 1 \<ge> mr then (Exited (Returns False), s2)
               else keepalive_loop w ri mr n (rc + 1) s2))"

text \<open>A result of \<open>None\<close>: the method has not returned within the given number of cycles.\<close>

definition keep_session_alive ::
  "world \<Rightarrow> nat \<Rightarrow> session_keeper \<Rightarrow> bool outcome option \<times> session_keeper" where
  "keep_session_alive w fuel s =
     (case andThen (getitem ''session_settings'' (session_settings (config s)))
             (\<lambda>ss. andThen (getitem ''refresh_interval'' (refresh_interval ss))
             (\<lambda>ri. andThen (getitem ''session_settings'' (session_settings (config s)))
             (\<lambda>ss'. andThen (getitem ''max_retries'' (max_retries ss'))
             (\<lambda>mr. ret (ri, mr))))) s of
        (Raises e, s') \<Rightarrow> (Some (Raises e), s')
      | (Returns (ri, mr), s') \<Rightarrow>
          (case keepalive_loop w ri mr fuel 0 s' of
             (Running rc, s'') \<Rightarrow> (None, s'')
           | (Exited r, s'') \<Rightarrow> (Some r, s'')))"

section \<open>The orchestrator (lines 226-255) and the process (lines 258-272)\<close>

definition cleanup :: "world \<Rightarrow> session_keeper \<Rightarrow> unit outcome \<times> session_keeper" where
  "cleanup w s = (case driver s of None \<Rightarrow> (Returns (), s) | Some d \<Rightarrow> perform w Quit s)"

text \<open>The body of the \<^verbatim>\<open>try\<close> block of \<^verbatim>\<open>run\<close>, lines 229-245.\<close>

definition run_body :: "world \<Rightarrow> nat \<Rightarrow> session_keeper \<Rightarrow> bool outcome option \<times> session_keeper" where
  "run_body w fuel s =
     (case setup_driver w s of
        (Raises e, s1) \<Rightarrow> (Some (Raises e), s1)
      | (Returns u, s1) \<Rightarrow>
     (case login w s1 of
        (Raises e, s2) \<Rightarrow> (Some (Raises e), s2)
      | (Returns logged, s2) \<Rightarrow>
     if \<not> logged then (Some (Returns False), s2) else
     (case navigate_to_session_url w s2 of
        (Raises e, s3) \<Rightarrow> (Some (Raises e), s3)
      | (Returns arrived, s3) \<Rightarrow>
     if \<not> arrived then (Some (Returns False), s3) else
     (case keep_session_alive w fuel s3 of
        (None, s4) \<Rightarrow> (None, s4)
      | (Some (Raises e), s4) \<Rightarrow> (Some (Raises e), s4)
      | (Some (Returns kept), s4) \<Rightarrow> (Some (Returns True), s4)))))"

text \<open>
  \<^verbatim>\<open>try ... finally: self.cleanup()\<close>: once the body has returned or raised, cleanup runs;
  an exception of cleanup replaces the body's result.
\<close>

definition run :: "world \<Rightarrow> nat \<Rightarrow> session_keeper \<Rightarrow> bool outcome option \<times> session_keeper" where
  "run w fuel s =
     (case run_body w fuel s of
        (None, s1) \<Rightarrow> (None, s1)
      | (Some r, s1) \<Rightarrow>
          (case cleanup w s1 of
             (Raises e, s2) \<Rightarrow> (Some (Raises e), s2)
           | (Returns u, s2) \<Rightarrow> (Some r, s2)))"

text \<open>\<^verbatim>\<open>main\<close> discards the result of \<^verbatim>\<open>keeper.run()\<close> (line 266).\<close>

definition main :: "exn + config \<Rightarrow> world \<Rightarrow> nat \<Rightarrow> unit outcome option \<times> event list" where
  "main src w fuel =
     (case init src of
        Raises e \<Rightarrow> (Some (Raises e), [])
      | Returns keeper \<Rightarrow>
          (case run w fuel keeper of
             (None, s) \<Rightarrow> (None, trace s)
           | (Some (Raises e), s) \<Rightarrow> (Some (Raises e), trace s)
           | (Some (Returns b), s) \<Rightarrow> (Some (Returns ()), trace s)))"

text \<open>
  The exit status the Python runtime gives the process: 0 when \<^verbatim>\<open>main\<close> returns, the code
  of an uncaught \<open>SystemExit\<close>, 130 (death by SIGINT) for an uncaught \<open>KeyboardInterrupt\<close>,
  1 after the traceback of any other uncaught exception.
\<close>

fun exit_status :: "unit outcome \<Rightarrow> int" where
  "exit_status (Returns u) = 0"
| "exit_status (Raises (SystemExit c)) = c"
| "exit_status (Raises KeyboardInterrupt) = 130"
| "exit_status (Raises e) = 1"

text \<open>
  Lines 271-272: the process runs \<^verbatim>\<open>main\<close>. When it terminates, it leaves an exit status and
  the history of the calls it made; \<open>None\<close> while the keepalive loop is still running.
\<close>

definition process :: "exn + config \<Rightarrow> world \<Rightarrow> nat \<Rightarrow> (int \<times> event list) option" where
  "process src w fuel =
     (case main src w fuel of
        (None, tr) \<Rightarrow> None
      | (Some r, tr) \<Rightarrow> Some (exit_status r, tr))"

section \<open>Vocabulary of the properties\<close>

text \<open>The state \<open>s\<close> after the further events \<open>evs\<close>; the events of \<open>s'\<close> that came after \<open>s\<close>.\<close>

definition with_events :: "session_keeper \<Rightarrow> event list \<Rightarrow> session_keeper" where
  "with_events s evs = s\<lparr>trace := trace s @ evs\<rparr>"

definition since :: "session_keeper \<Rightarrow> session_keeper \<Rightarrow> event list" where
  "since s s' = drop (length (trace s)) (trace s')"

text \<open>
  The refresh outcomes a history shows, in order: \<open>True\<close> for a refresh that returned,
  \<open>False\<close> for one that raised an \<^verbatim>\<open>Exception\<close> (which \<^verbatim>\<open>refresh_page\<close> turns into the result
  \<^verbatim>\<open>False\<close>). A refresh cut short by an interrupt is neither.
\<close>

fun refresh_outcomes :: "event list \<Rightarrow> bool list" where
  "refresh_outcomes [] = []"
| "refresh_outcomes ((c, r) # evs) =
     (if c = Refresh then
        (case r of
           None \<Rightarrow> True # refresh_outcomes evs
         | Some e \<Rightarrow> if is_Exception e then False # refresh_outcomes evs else refresh_outcomes evs)
      else refresh_outcomes evs)"

text \<open>
  What the result of the loop says about the refresh outcomes \<open>os\<close> seen so far, for a
  threshold of \<open>M\<close> consecutive failures: while the loop runs, no \<open>M\<close> failures in a row have
  occurred and the counter is the number of failures since the last success; the loop has
  failed exactly when the outcomes end in \<open>M\<close> failures in a row and nowhere earlier.
\<close>

definition tally :: "nat \<Rightarrow> bool list \<Rightarrow> loop_result \<Rightarrow> bool" where
  "tally M os res =
     (case res of
        Running c \<Rightarrow> \<not> sublist (replicate M False) os \<and> c = int (length (takeWhile Not (rev os)))
      | Exited r \<Rightarrow>
          if r = Returns False
          then suffix (replicate M False) os \<and> \<not> sublist (replicate M False) (butlast os)
          else \<not> sublist (replicate M False) os)"

text \<open>
  From \<open>s\<close> to \<open>s'\<close> only the history has grown, by events that all satisfy \<open>P\<close>; the
  configuration and the driver are the same. (\<^verbatim>\<open>is_logged_in\<close> may have changed.)
\<close>

definition advances :: "(event \<Rightarrow> bool) \<Rightarrow> session_keeper \<Rightarrow> session_keeper \<Rightarrow> bool" where
  "advances P s s' =
     (config s' = config s \<and> driver s' = driver s \<and> prefix (trace s) (trace s') \<and>
      list_all P (since s s'))"

text \<open>
  The fallback chain of the submit control, in the words of the specification: the
  configured locator as an XPath when it is not empty, then the id \<^verbatim>\<open>loginbtn\<close>, then a
  \<^verbatim>\<open>button\<close> of type submit, then an \<^verbatim>\<open>input\<close> of type submit.
\<close>

definition candidates :: "string \<Rightarrow> locator list" where
  "candidates submit_xpath =
     (if submit_xpath \<noteq> [] then [(XPATH, submit_xpath)] else []) @
     [(ID, ''loginbtn''), (XPATH, ''//button[@type='submit']''),
      (XPATH, ''//input[@type='submit']'')]"

text \<open>
  Trying a list of locators in order and stopping at the first that is found; when none
  is, the control is not found (the exception of line 151).
\<close>

fun first_found ::
  "world \<Rightarrow> locator list \<Rightarrow> session_keeper \<Rightarrow> locator outcome \<times> session_keeper" where
  "first_found w [] s = (Raises PlainException, s)"
| "first_found w (l # ls) s =
     (case perform w (FindElement l) s of
        (Returns u, s') \<Rightarrow> (Returns l, s')
      | (Raises e, s') \<Rightarrow> first_found w ls s')"

subsection \<open>Sample inputs\<close>

text \<open>A world in which every call succeeds.\<close>

definition calm :: world where
  "calm = \<lparr>raises = (\<lambda>h c. None), url = (\<lambda>h. ''https://example.org/home'')\<rparr>"

text \<open>
  A world that plays a list of refresh outcomes (\<open>False\<close>: the refresh raises
  \<open>WebDriverException\<close>; past the end of the list every refresh succeeds) and, when \<open>stop\<close> is
  \<open>Some k\<close>, interrupts the sleep that follows \<open>k\<close> earlier sleeps.
\<close>

definition script_world :: "bool list \<Rightarrow> nat option \<Rightarrow> world" where
  "script_world os stop =
     \<lparr>raises = (\<lambda>h c.
        if c = Refresh then
          (let i = length (filter (\<lambda>ev. fst ev = Refresh) h)
           in if i < length os \<and> \<not> os ! i then Some WebDriverException else None)
        else if \<not> is_browser_call c \<and>
                stop = Some (length (filter (\<lambda>ev. \<not> is_browser_call (fst ev)) h))
          then Some KeyboardInterrupt
        else None),
      url = (\<lambda>h. ''https://example.org/home'')\<rparr>"

definition sample_config :: config where
  "sample_config =
     \<lparr>login_url = Some ''https://example.org/login'',
      session_url = Some ''https://example.org/app'',
      credentials = Some \<lparr>username = Some ''alice'', password = Some ''secret''\<rparr>,
      form_fields = Some \<lparr>username_field = Some ''user'', password_field = Some ''pass'',
        submit_button = Some []\<rparr>,
      session_settings = Some \<lparr>headless = Some True, timeout = Some 10,
        refresh_interval = Some 60, max_retries = Some 3\<rparr>\<rparr>"

text \<open>A keeper whose driver has been set up, with an empty history.\<close>

definition ready :: "config \<Rightarrow> session_keeper" where
  "ready cfg = \<lparr>config = cfg, driver = Some Chrome, is_logged_in = False, trace = []\<rparr>"

text \<open>A keeper as the constructor leaves it (lines 40-42): no driver yet.\<close>

definition fresh :: "config \<Rightarrow> session_keeper" where
  "fresh cfg = \<lparr>config = cfg, driver = None, is_logged_in = False, trace = []\<rparr>"

text \<open>
  A world in which the outcome of a call depends on the call only, with a fixed URL
  reported by the browser.
\<close>

definition fixed_world :: "(call \<Rightarrow> exn option) \<Rightarrow> string \<Rightarrow> world" where
  "fixed_world f u = \<lparr>raises = (\<lambda>h c. f c), url = (\<lambda>h. u)\<rparr>"

text \<open>The sample configuration without \<^verbatim>\<open>credentials.password\<close>.\<close>

definition missing_password :: config where
  "missing_password =
     sample_config\<lparr>credentials := Some \<lparr>username = Some ''alice'', password = None\<rparr>\<rparr>"

section \<open>Basic facts\<close>

lemma with_events_simps [simp]:
  "trace (with_events s evs) = trace s @ evs" "driver (with_events s evs) = driver s"
  "config (with_events s evs) = config s" "is_logged_in (with_events s evs) = is_logged_in s"
  "with_events (with_events s xs) ys = with_events s (xs @ ys)"
  by (simp_all add: with_events_def)

lemma perform_eq:
  "perform w c s = ((case raises w (trace s) c of None \<Rightarrow> Returns () | Some e \<Rightarrow> Raises e),
     with_events s [(c, raises w (trace s) c)])"
  by (simp add: perform_def with_events_def)

lemma refresh_page_eq:
  "driver s \<noteq> None \<Longrightarrow> refresh_page w s =
     ((case raises w (trace s) Refresh of None \<Rightarrow> Returns True
       | Some e \<Rightarrow> if is_Exception e then Returns False else Raises e),
      with_events s [(Refresh, raises w (trace s) Refresh)])"
  by (auto simp: refresh_page_def try_except_def driver_call_def perform_eq andThen_def ret_def
           split: option.splits)

lemma loop_sleep_raises:
  "raises w (trace s) (Sleep ri) = Some e \<Longrightarrow>
   keepalive_loop w ri mr (Suc n) rc s = (Exited (on_interrupt e), with_events s [(Sleep ri, Some e)])"
  by (simp add: perform_eq)

lemma loop_refresh_escapes:
  "driver s \<noteq> None \<Longrightarrow> raises w (trace s) (Sleep ri) = None \<Longrightarrow>
   raises w (trace s @ [(Sleep ri, None)]) Refresh = Some e \<Longrightarrow> \<not> is_Exception e \<Longrightarrow>
   keepalive_loop w ri mr (Suc n) rc s =
     (Exited (on_interrupt e), with_events s [(Sleep ri, None), (Refresh, Some e)])"
  by (simp add: perform_eq refresh_page_eq)

lemma loop_refresh_ok:
  "driver s \<noteq> None \<Longrightarrow> raises w (trace s) (Sleep ri) = None \<Longrightarrow>
   raises w (trace s @ [(Sleep ri, None)]) Refresh = None \<Longrightarrow>
   keepalive_loop w ri mr (Suc n) rc s =
     keepalive_loop w ri mr n 0 (with_events s [(Sleep ri, None), (Refresh, None)])"
  by (simp add: perform_eq refresh_page_eq)

lemma loop_refresh_fails:
  "driver s \<noteq> None \<Longrightarrow> raises w (trace s) (Sleep ri) = None \<Longrightarrow>
   raises w (trace s @ [(Sleep ri, None)]) Refresh = Some e \<Longrightarrow> is_Exception e \<Longrightarrow>
   keepalive_loop w ri mr (Suc n) rc s =
     (if rc + 1 \<ge> mr then (Exited (Returns False), with_events s [(Sleep ri, None), (Refresh, Some e)])
      else keepalive_loop w ri mr n (rc + 1) (with_events s [(Sleep ri, None), (Refresh, Some e)]))"
  by (simp add: perform_eq refresh_page_eq)

declare keepalive_loop.simps(2) [simp del]

lemma since_with_events [simp]: "since s (with_events s evs) = evs"
  by (simp add: since_def)

lemma loop_fuel_add:
  "keepalive_loop w ri mr (n + m) rc s =
     (case keepalive_loop w ri mr n rc s of
        (Running rc', s') \<Rightarrow> keepalive_loop w ri mr m rc' s'
      | (Exited r, s') \<Rightarrow> (Exited r, s'))"
  by (induction n arbitrary: rc s) (auto simp: keepalive_loop.simps(2) split: prod.splits outcome.splits)

lemma keep_session_alive_eq:
  assumes "session_settings (config s) = Some ss" "refresh_interval ss = Some ri"
    "max_retries ss = Some mr"
  shows "keep_session_alive w n s =
     (case keepalive_loop w ri mr n 0 s of
        (Running rc, s') \<Rightarrow> (None, s')
      | (Exited r, s') \<Rightarrow> (Some r, s'))"
  using assms by (simp add: keep_session_alive_def andThen_def getitem_def ret_def)

section \<open>The keepalive loop counts consecutive failures\<close>

lemma no_run_in_short: "k < M \<Longrightarrow> \<not> sublist (replicate M False) (replicate k False)"
  using sublist_length_le by fastforce

lemma run_after_success:
  assumes "k < M"
  shows "sublist (replicate M False) (replicate k False @ True # xs) = sublist (replicate M False) xs"
proof -
  have a: "\<not> prefix (replicate M False) (True # xs)"
    using assms by (cases M) auto
  have b: "\<not> (\<exists>xs1 xs2. replicate M False = xs1 @ xs2 \<and> suffix xs1 (replicate k False) \<and> prefix xs2 (True # xs))"
  proof
    assume "\<exists>xs1 xs2. replicate M False = xs1 @ xs2 \<and> suffix xs1 (replicate k False) \<and> prefix xs2 (True # xs)"
    then obtain xs1 xs2 where r: "replicate M False = xs1 @ xs2"
      and s: "suffix xs1 (replicate k False)" and p: "prefix xs2 (True # xs)" by blast
    have "xs2 = []"
    proof (cases xs2)
      case (Cons y ys)
      with p have "y = True" by simp
      moreover have "y \<in> set (replicate M False)" using r Cons by simp
      ultimately show ?thesis by simp
    qed simp
    with r have "xs1 = replicate M False" by simp
    with s have "M \<le> k" using suffix_length_le by fastforce
    with assms show False by simp
  qed
  have c: "\<not> sublist (replicate M False) (replicate k False)"
    by (rule no_run_in_short [OF assms])
  show ?thesis
    unfolding sublist_append [of _ "replicate k False"] sublist_Cons_right [of _ True]
    using a b c by blast
qed

lemma trailing_after_success:
  "length (takeWhile Not (rev (ps @ True # xs))) = length (takeWhile Not (rev xs))"
  by (simp add: takeWhile_tail)

lemma trailing_replicate: "length (takeWhile Not (rev (replicate k False))) = k"
  by simp

lemma exhausted_iff: "k < nat (max 1 mr) \<Longrightarrow> (mr \<le> int k + 1) = (Suc k = nat (max 1 mr))"
  by auto

lemma tally_step_success:
  assumes "k < M" "tally M (replicate 0 False @ os) res"
  shows "tally M (replicate k False @ True # os) res"
proof (cases "res = Exited (Returns False)")
  case True
  with assms(2) have s: "suffix (replicate M False) os"
    and b: "\<not> sublist (replicate M False) (butlast os)"
    by (simp_all add: tally_def)
  from s assms(1) have ne: "os \<noteq> []" by (cases M) auto
  have "suffix (replicate M False) (replicate k False @ True # os)"
    using s by (simp add: suffix_appendI suffix_ConsI)
  moreover have "butlast (replicate k False @ True # os) = replicate k False @ True # butlast os"
    using ne by (simp add: butlast_append)
  ultimately show ?thesis
    using True b by (simp add: tally_def run_after_success [OF assms(1)])
next
  case False
  with assms(2) show ?thesis
    by (auto simp: tally_def run_after_success [OF assms(1)] takeWhile_tail
             split: loop_result.splits)
qed

lemma tally_exit:
  assumes "k < M" "res \<noteq> Exited (Returns False)" "\<And>c. res \<noteq> Running c"
  shows "tally M (replicate k False) res"
  using assms no_run_in_short [OF assms(1)] by (cases res) (auto simp: tally_def)

lemma on_interrupt_not_failed: "on_interrupt e \<noteq> Returns False"
  by (simp add: on_interrupt_def)

lemma loop_inv:
  assumes "driver s \<noteq> None" "k < nat (max 1 mr)"
  shows "\<exists>evs. snd (keepalive_loop w ri mr n (int k) s) = with_events s evs \<and>
     tally (nat (max 1 mr)) (replicate k False @ refresh_outcomes evs)
       (fst (keepalive_loop w ri mr n (int k) s))"
  using assms
proof (induction n arbitrary: k s)
  case 0
  have "snd (keepalive_loop w ri mr 0 (int k) s) = with_events s []"
    by (simp add: with_events_def)
  moreover have "tally (nat (max 1 mr)) (replicate k False @ refresh_outcomes [])
       (fst (keepalive_loop w ri mr 0 (int k) s))"
    using no_run_in_short [OF "0.prems"(2)] by (simp add: tally_def)
  ultimately show ?case by blast
next
  case (Suc n)
  let ?M = "nat (max 1 mr)"
  note d = Suc.prems(1) and k = Suc.prems(2)
  show ?case
  proof (cases "raises w (trace s) (Sleep ri)")
    case (Some e)
    let ?evs = "[(Sleep ri, Some e)]"
    have "tally ?M (replicate k False @ refresh_outcomes ?evs) (Exited (on_interrupt e))"
      using tally_exit [OF k, of "Exited (on_interrupt e)"] on_interrupt_not_failed by simp
    then show ?thesis
      unfolding loop_sleep_raises [OF Some] by (intro exI [of _ ?evs]) simp
  next
    case None
    note sl = None
    show ?thesis
    proof (cases "raises w (trace s @ [(Sleep ri, None)]) Refresh")
      case None
      let ?pre = "[(Sleep ri, None), (Refresh, None)]"
      have d': "driver (with_events s ?pre) \<noteq> None" using d by simp
      have k0: "0 < ?M" by simp
      from Suc.IH [OF d' k0] obtain evs where
        st: "snd (keepalive_loop w ri mr n (int 0) (with_events s ?pre)) = with_events (with_events s ?pre) evs"
        and ta: "tally ?M (replicate 0 False @ refresh_outcomes evs)
                   (fst (keepalive_loop w ri mr n (int 0) (with_events s ?pre)))"
        by blast
      have "tally ?M (replicate k False @ refresh_outcomes (?pre @ evs))
              (fst (keepalive_loop w ri mr n 0 (with_events s ?pre)))"
        using tally_step_success [OF k ta] by simp
      with st show ?thesis
        unfolding loop_refresh_ok [OF d sl None] by (intro exI [of _ "?pre @ evs"]) simp
    next
      case (Some e)
      let ?pre = "[(Sleep ri, None), (Refresh, Some e)]"
      show ?thesis
      proof (cases "is_Exception e")
        case False
        have "tally ?M (replicate k False @ refresh_outcomes ?pre) (Exited (on_interrupt e))"
          using tally_exit [OF k, of "Exited (on_interrupt e)"] on_interrupt_not_failed False
          by simp
        then show ?thesis
          unfolding loop_refresh_escapes [OF d sl Some False] by (intro exI [of _ ?pre]) simp
      next
        case True
        note step = loop_refresh_fails [OF d sl Some True]
        show ?thesis
        proof (cases "mr \<le> int k + 1")
          case True
          then have M: "Suc k = ?M" using exhausted_iff [OF k] by simp
          have "replicate k False @ [False] = replicate ?M False"
            unfolding M [symmetric] by (simp add: replicate_append_same)
          then have sfx: "suffix (replicate ?M False) (replicate k False @ [False])"
            by simp
          have bl: "\<not> sublist (replicate ?M False) (butlast (replicate k False @ [False]))"
            using no_run_in_short [OF k] by simp
          have ro: "refresh_outcomes ?pre = [False]"
            using \<open>is_Exception e\<close> by simp
          have "tally ?M (replicate k False @ refresh_outcomes ?pre) (Exited (Returns False))"
            unfolding ro tally_def using sfx bl by simp
          then show ?thesis
            unfolding step using True by (intro exI [of _ ?pre]) simp
        next
          case False
          then have k': "Suc k < ?M" using exhausted_iff [OF k] k by linarith
          have d': "driver (with_events s ?pre) \<noteq> None" using d by simp
          from Suc.IH [OF d' k'] obtain evs where
            st: "snd (keepalive_loop w ri mr n (int (Suc k)) (with_events s ?pre)) = with_events (with_events s ?pre) evs"
            and ta: "tally ?M (replicate (Suc k) False @ refresh_outcomes evs)
                   (fst (keepalive_loop w ri mr n (int (Suc k)) (with_events s ?pre)))"
            by blast
          have eq: "int k + 1 = int (Suc k)" by simp
          have "replicate k False @ refresh_outcomes (?pre @ evs) = replicate (Suc k) False @ refresh_outcomes evs"
            using \<open>is_Exception e\<close> by (simp add: replicate_app_Cons_same)
          with ta st show ?thesis
            unfolding step eq using False by (intro exI [of _ "?pre @ evs"]) simp
        qed
      qed
    qed
  qed
qed

lemma loop_failed_last:
  assumes "driver s \<noteq> None" "fst (keepalive_loop w ri mr n rc s) = Exited (Returns False)"
  shows "\<exists>evs e. snd (keepalive_loop w ri mr n rc s) =
           with_events s (evs @ [(Sleep ri, None), (Refresh, Some e)]) \<and> is_Exception e"
  using assms
proof (induction n arbitrary: rc s)
  case 0
  then show ?case by simp
next
  case (Suc n)
  note d = Suc.prems(1) and f = Suc.prems(2)
  show ?case
  proof (cases "raises w (trace s) (Sleep ri)")
    case (Some e)
    with f show ?thesis
      by (simp add: loop_sleep_raises on_interrupt_not_failed)
  next
    case None
    note sl = None
    show ?thesis
    proof (cases "raises w (trace s @ [(Sleep ri, None)]) Refresh")
      case None
      let ?pre = "[(Sleep ri, None), (Refresh, None)]"
      have d': "driver (with_events s ?pre) \<noteq> None" using d by simp
      from f have "fst (keepalive_loop w ri mr n 0 (with_events s ?pre)) = Exited (Returns False)"
        by (simp only: loop_refresh_ok [OF d sl None])
      from Suc.IH [OF d' this] obtain evs e where
        "snd (keepalive_loop w ri mr n 0 (with_events s ?pre)) =
           with_events (with_events s ?pre) (evs @ [(Sleep ri, None), (Refresh, Some e)])"
        and "is_Exception e" by blast
      then show ?thesis
        unfolding loop_refresh_ok [OF d sl None]
        by (intro exI [of _ "?pre @ evs"] exI [of _ e]) simp
    next
      case (Some e)
      let ?pre = "[(Sleep ri, None), (Refresh, Some e)]"
      show ?thesis
      proof (cases "is_Exception e")
        case False
        with f show ?thesis
          by (simp add: loop_refresh_escapes [OF d sl Some False] on_interrupt_not_failed)
      next
        case True
        note step = loop_refresh_fails [OF d sl Some True]
        show ?thesis
        proof (cases "mr \<le> rc + 1")
          case True
          then show ?thesis
            unfolding step using \<open>is_Exception e\<close>
            by (intro exI [of _ "[]"] exI [of _ e]) simp
        next
          case False
          have d': "driver (with_events s ?pre) \<noteq> None" using d by simp
          from f False have "fst (keepalive_loop w ri mr n (rc + 1) (with_events s ?pre)) = Exited (Returns False)"
            by (simp only: step if_False)
          from Suc.IH [OF d' this] obtain evs e' where
            "snd (keepalive_loop w ri mr n (rc + 1) (with_events s ?pre)) =
               with_events (with_events s ?pre) (evs @ [(Sleep ri, None), (Refresh, Some e')])"
            and "is_Exception e'" by blast
          then show ?thesis
            unfolding step using False
            by (intro exI [of _ "?pre @ evs"] exI [of _ e']) simp
        qed
      qed
    qed
  qed
qed

section \<open>The phases only extend the history\<close>

lemma advancesI:
  "config s' = config s \<Longrightarrow> driver s' = driver s \<Longrightarrow> trace s' = trace s @ evs \<Longrightarrow>
   list_all P evs \<Longrightarrow> advances P s s'"
  by (simp add: advances_def since_def)

lemma advancesE:
  assumes "advances P s s'"
  obtains evs where "config s' = config s" "driver s' = driver s" "trace s' = trace s @ evs"
    "list_all P evs"
  using assms by (auto simp: advances_def since_def prefix_def)

lemma advances_refl [simp]: "advances P s s"
  by (rule advancesI [where evs = "[]"]) simp_all

lemma advances_trans:
  assumes "advances P s s1" "advances P s1 s2"
  shows "advances P s s2"
proof -
  from assms(1) obtain xs where a: "config s1 = config s" "driver s1 = driver s"
    "trace s1 = trace s @ xs" "list_all P xs" by (rule advancesE)
  from assms(2) obtain ys where b: "config s2 = config s1" "driver s2 = driver s1"
    "trace s2 = trace s1 @ ys" "list_all P ys" by (rule advancesE)
  show ?thesis
    by (rule advancesI [where evs = "xs @ ys"]) (simp_all add: a b)
qed

lemma advances_perform:
  "P (c, raises w (trace s) c) \<Longrightarrow> advances P s (snd (perform w c s))"
  by (rule advancesI [where evs = "[(c, raises w (trace s) c)]"]) (simp_all add: perform_def)

lemma advances_driver_call:
  "(\<And>r. P (c, r)) \<Longrightarrow> advances P s (snd (driver_call w c s))"
  by (cases "driver s") (simp_all add: driver_call_def advances_perform)

lemma advances_getitem [simp]: "advances P s (snd (getitem k v s))"
  by (cases v) (simp_all add: getitem_def)

lemma advances_ret [simp]: "advances P s (snd (ret x s))"
  by (simp add: ret_def)

lemma advances_raise [simp]: "advances P s (snd (raise_exn e s))"
  by (simp add: raise_exn_def)

lemma advances_andThen:
  assumes "advances P s (snd (m s))" "\<And>x s1. advances P s1 (snd (f x s1))"
  shows "advances P s (snd (andThen m f s))"
proof (cases "m s")
  case (Pair r s1)
  show ?thesis
  proof (cases r)
    case (Returns x)
    with Pair assms(1) assms(2) [of s1 x] show ?thesis
      by (simp add: andThen_def) (erule advances_trans)
  next
    case (Raises e)
    with Pair assms(1) show ?thesis by (simp add: andThen_def)
  qed
qed

lemma advances_try_except:
  "advances P s (snd (m s)) \<Longrightarrow> advances P s (snd (try_except m h s))"
  by (auto simp: try_except_def split: prod.splits outcome.splits)

lemma advances_if:
  "(c \<Longrightarrow> advances P s (snd (a s))) \<Longrightarrow> (\<not> c \<Longrightarrow> advances P s (snd (b s))) \<Longrightarrow>
   advances P s (snd ((if c then a else b) s))"
  by simp

lemma advances_current_url: "P (CurrentUrl, raises w (trace s) CurrentUrl) \<Longrightarrow> (\<And>r. P (CurrentUrl, r)) \<Longrightarrow> advances P s (snd (current_url w s))"
  using advances_driver_call [of P CurrentUrl s w]
  by (auto simp: current_url_def split: prod.splits outcome.splits)

lemma advances_try_find:
  "(\<And>r. P (FindElement l, r)) \<Longrightarrow> advances P s (snd (try_find w l found s))"
  unfolding try_find_def
  by (cases found)
     (auto intro!: advances_try_except advances_andThen advances_driver_call)

lemma advances_logged_in [simp]: "advances P s (s\<lparr>is_logged_in := b\<rparr>)"
  by (rule advancesI [where evs = "[]"]) simp_all

lemma advances_resolve_submit:
  "(\<And>l r. P (FindElement l, r)) \<Longrightarrow> advances P s (snd (resolve_submit w xp s))"
  unfolding resolve_submit_def
  by (intro advances_andThen advances_try_find advances_if) (auto split: option.splits)

lemma advances_fill_form:
  "(\<And>c r. c \<noteq> Quit \<Longrightarrow> P (c, r)) \<Longrightarrow> advances P s (snd (fill_form w lurl creds ff t s))"
  unfolding fill_form_def
  by (intro advances_andThen advances_driver_call advances_perform advances_getitem) simp_all

lemma advances_submit_and_check:
  "(\<And>c r. c \<noteq> Quit \<Longrightarrow> P (c, r)) \<Longrightarrow> advances P s (snd (submit_and_check w lurl btn s))"
  unfolding submit_and_check_def
  by (intro advances_andThen advances_current_url advances_perform) simp_all

lemma advances_login:
  assumes "\<And>c r. c \<noteq> Quit \<Longrightarrow> P (c, r)"
  shows "advances P s (snd (login w s))"
  unfolding login_def login_body_def
  by (intro advances_andThen advances_getitem advances_try_except advances_fill_form
        advances_resolve_submit advances_submit_and_check assms) simp_all

lemma advances_navigate:
  assumes "\<And>c r. c \<noteq> Quit \<Longrightarrow> P (c, r)"
  shows "advances P s (snd (navigate_to_session_url w s))"
  unfolding navigate_to_session_url_def
  by (intro advances_andThen advances_getitem advances_try_except advances_driver_call
        advances_perform advances_ret assms) simp_all

lemma advances_refresh_page:
  assumes "\<And>c r. c \<noteq> Quit \<Longrightarrow> P (c, r)"
  shows "advances P s (snd (refresh_page w s))"
  unfolding refresh_page_def
  by (intro advances_andThen advances_try_except advances_driver_call advances_ret assms) simp_all

lemma advances_loop:
  assumes "\<And>c r. c \<noteq> Quit \<Longrightarrow> P (c, r)"
  shows "advances P s (snd (keepalive_loop w ri mr n rc s))"
proof (induction n arbitrary: rc s)
  case 0
  show ?case by simp
next
  case (Suc n)
  have a: "advances P s (snd (perform w (Sleep ri) s))"
    by (rule advances_perform) (simp add: assms)
  show ?case
  proof (cases "perform w (Sleep ri) s")
    case (Pair r s1)
    with a have a1: "advances P s s1" by simp
    have b: "advances P s1 (snd (refresh_page w s1))"
      by (rule advances_refresh_page) (rule assms)
    show ?thesis
    proof (cases "refresh_page w s1")
      case p2: (Pair r2 s2)
      with b have "advances P s1 s2" by simp
      with a1 have a2: "advances P s s2" by (rule advances_trans)
      have c: "advances P s (snd (keepalive_loop w ri mr n rc' s2))" for rc'
        using a2 Suc.IH [of s2 rc'] by (rule advances_trans)
      show ?thesis
        using Pair p2 a1 a2 c
        by (auto simp: keepalive_loop.simps(2) split: outcome.splits)
    qed
  qed
qed

lemma advances_keep_session_alive:
  assumes "\<And>c r. c \<noteq> Quit \<Longrightarrow> P (c, r)"
  shows "advances P s (snd (keep_session_alive w n s))"
proof (cases "session_settings (config s)")
  case None
  then show ?thesis
    by (simp add: keep_session_alive_def andThen_def getitem_def)
next
  case (Some ss)
  note ss = Some
  show ?thesis
  proof (cases "refresh_interval ss")
    case None
    with ss show ?thesis
      by (simp add: keep_session_alive_def andThen_def getitem_def)
  next
    case (Some ri)
    note ri = Some
    show ?thesis
    proof (cases "max_retries ss")
      case None
      with ss ri show ?thesis
        by (simp add: keep_session_alive_def andThen_def getitem_def)
    next
      case (Some mr)
      have "advances P s (snd (keepalive_loop w ri mr n 0 s))"
        by (rule advances_loop) (rule assms)
      then show ?thesis
        unfolding keep_session_alive_eq [OF ss ri Some]
        by (auto split: prod.splits loop_result.splits)
    qed
  qed
qed

lemma advances_prefix: "advances P s s' \<Longrightarrow> prefix (trace s) (trace s')"
  by (simp add: advances_def)

lemma advances_driver: "advances P s s' \<Longrightarrow> driver s' = driver s"
  by (simp add: advances_def)

section \<open>Facts about setup, run and main\<close>

lemma setup_driver_eq:
  "setup_driver w s =
     (case session_settings (config s) of
        None \<Rightarrow> (Raises (KeyError ''session_settings''), s)
      | Some ss \<Rightarrow>
          (case raises w (trace s) (Launch (case headless ss of None \<Rightarrow> False | Some b \<Rightarrow> b)) of
             None \<Rightarrow> (Returns (),
               (with_events s [(Launch (case headless ss of None \<Rightarrow> False | Some b \<Rightarrow> b), None)])
                 \<lparr>driver := Some Chrome\<rparr>)
           | Some e \<Rightarrow> ((if is_WebDriverException e then Raises (SystemExit 1) else Raises e),
               with_events s [(Launch (case headless ss of None \<Rightarrow> False | Some b \<Rightarrow> b), Some e)])))"
  by (simp add: setup_driver_def try_except_def andThen_def getitem_def perform_eq
           split: option.splits)

lemma setup_returns:
  assumes "setup_driver w s = (Returns u, s1)"
  shows "driver s1 = Some Chrome \<and> config s1 = config s \<and>
         (\<exists>hl. trace s1 = trace s @ [(Launch hl, None)])"
  using assms unfolding setup_driver_eq
  by (auto split: option.splits if_splits)

lemma setup_raises:
  assumes "setup_driver w s = (Raises e, s1)"
  shows "driver s1 = driver s \<and> config s1 = config s \<and>
         (trace s1 = trace s \<or> (\<exists>hl e'. trace s1 = trace s @ [(Launch hl, Some e')]))"
  using assms unfolding setup_driver_eq
  by (auto split: option.splits if_splits)

lemma run_body_setup_raises:
  "setup_driver w s = (Raises e, s1) \<Longrightarrow> run_body w fuel s = (Some (Raises e), s1)"
  by (simp add: run_body_def)

lemma run_body_after_setup:
  assumes "setup_driver w s = (Returns u, s1)" and P: "\<And>c r. c \<noteq> Quit \<Longrightarrow> P (c, r)"
  shows "advances P s1 (snd (run_body w fuel s))"
proof -
  obtain r2 s2 where l: "login w s1 = (r2, s2)" by (cases "login w s1")
  obtain r3 s3 where n: "navigate_to_session_url w s2 = (r3, s3)"
    by (cases "navigate_to_session_url w s2")
  obtain r4 s4 where k: "keep_session_alive w fuel s3 = (r4, s4)"
    by (cases "keep_session_alive w fuel s3")
  have a2: "advances P s1 s2"
    using advances_login [of P s1 w] l P by simp
  have "advances P s2 s3"
    using advances_navigate [of P s2 w] n P by simp
  with a2 have a3: "advances P s1 s3" by (rule advances_trans)
  have "advances P s3 s4"
    using advances_keep_session_alive [of P s3 w fuel] k P by simp
  with a3 have a4: "advances P s1 s4" by (rule advances_trans)
  have "snd (run_body w fuel s) = s2 \<or> snd (run_body w fuel s) = s3 \<or>
        snd (run_body w fuel s) = s4"
    using assms(1) l n k
    by (auto simp: run_body_def split: outcome.splits option.splits)
  with a2 a3 a4 show ?thesis by auto
qed

lemma run_eq:
  "run w fuel s =
     (case run_body w fuel s of
        (None, s1) \<Rightarrow> (None, s1)
      | (Some r, s1) \<Rightarrow>
          (case driver s1 of
             None \<Rightarrow> (Some r, s1)
           | Some d \<Rightarrow>
               (case raises w (trace s1) Quit of
                  None \<Rightarrow> (Some r, with_events s1 [(Quit, None)])
                | Some e \<Rightarrow> (Some (Raises e), with_events s1 [(Quit, Some e)]))))"
  by (simp add: run_def cleanup_def perform_eq split: prod.splits option.splits)

lemma no_quit_filter: "list_all (\<lambda>ev. fst ev \<noteq> Quit) evs \<Longrightarrow> filter (\<lambda>ev. fst ev = Quit) evs = []"
  by (induction evs) auto

lemma run_quits:
  assumes "setup_driver w s = (Returns u, s1)"
  shows "\<exists>evs. list_all (\<lambda>ev. fst ev \<noteq> Quit) evs \<and>
     (case fst (run w fuel s) of
        None \<Rightarrow> trace (snd (run w fuel s)) = trace s @ evs
      | Some r \<Rightarrow> trace (snd (run w fuel s)) = trace s @ evs @ [(Quit, raises w (trace s @ evs) Quit)])"
proof -
  obtain rb sb where b: "run_body w fuel s = (rb, sb)" by (cases "run_body w fuel s")
  from setup_returns [OF assms] obtain hl where
    s1: "driver s1 = Some Chrome" "trace s1 = trace s @ [(Launch hl, None)]" by blast
  have "advances (\<lambda>ev. fst ev \<noteq> Quit) s1 sb"
    using run_body_after_setup [OF assms, where P = "\<lambda>ev. fst ev \<noteq> Quit" and fuel = fuel] b by simp
  then obtain evs where sb: "driver sb = driver s1" "trace sb = trace s1 @ evs"
    "list_all (\<lambda>ev. fst ev \<noteq> Quit) evs" by (rule advancesE)
  let ?evs = "(Launch hl, None) # evs"
  have 1: "list_all (\<lambda>ev. fst ev \<noteq> Quit) ?evs" using sb(3) by simp
  have 2: "trace sb = trace s @ ?evs" using sb(2) s1(2) by simp
  have "case fst (run w fuel s) of
        None \<Rightarrow> trace (snd (run w fuel s)) = trace s @ ?evs
      | Some r \<Rightarrow> trace (snd (run w fuel s)) = trace s @ ?evs @ [(Quit, raises w (trace s @ ?evs) Quit)]"
    unfolding run_eq b using sb(1) s1(1) 2
    by (cases rb) (auto split: option.splits)
  with 1 show ?thesis by blast
qed

lemma run_after_body:
  "run_body w fuel s = (Some r, sb) \<Longrightarrow> driver sb \<noteq> None \<Longrightarrow>
   trace (snd (run w fuel s)) = trace sb @ [(Quit, raises w (trace sb) Quit)]"
  by (auto simp: run_eq split: option.splits)

lemma init_eq: "init (Inr cfg) = Returns (fresh cfg)"
  by (simp add: init_def load_config_def fresh_def)

lemma main_eq:
  "main (Inr cfg) w fuel =
     (case run w fuel (fresh cfg) of
        (None, s) \<Rightarrow> (None, trace s)
      | (Some (Raises e), s) \<Rightarrow> (Some (Raises e), trace s)
      | (Some (Returns b), s) \<Rightarrow> (Some (Returns ()), trace s))"
  by (simp add: main_def init_eq)

lemma process_load_failure:
  "e = FileNotFoundError \<or> e = JSONDecodeError \<Longrightarrow> process (Inl e) w fuel = Some (1, [])"
  by (auto simp: process_def main_def init_def load_config_def)

text \<open>The definitions that evaluate the program on a sample input.\<close>

lemmas program_defs =
  run_def run_body_def cleanup_def setup_driver_def login_def login_body_def fill_form_def
  resolve_submit_def try_find_def submit_and_check_def current_url_def
  navigate_to_session_url_def refresh_page_def keep_session_alive_def keepalive_loop.simps(2)
  on_interrupt_def andThen_def try_except_def getitem_def ret_def raise_exn_def perform_def
  driver_call_def main_def init_def load_config_def

lemmas sample_defs =
  fixed_world_def calm_def sample_config_def fresh_def ready_def with_events_def since_def

section \<open>Facts about login\<close>

lemma try_find_None:
  "driver s \<noteq> None \<Longrightarrow> try_find w l None s =
     ((case raises w (trace s) (FindElement l) of
         None \<Rightarrow> Returns (Some l)
       | Some e \<Rightarrow> if is_Exception e then Returns None else Raises e),
      with_events s [(FindElement l, raises w (trace s) (FindElement l))])"
  by (auto simp: try_find_def try_except_def andThen_def ret_def driver_call_def perform_eq
           split: option.splits)

lemma try_find_Some: "try_find w l (Some b) s = (Returns (Some b), s)"
  by (simp add: try_find_def)

lemma first_found_Cons:
  "first_found w (l # ls) s =
     (case raises w (trace s) (FindElement l) of
        None \<Rightarrow> (Returns l, with_events s [(FindElement l, None)])
      | Some e \<Rightarrow> first_found w ls (with_events s [(FindElement l, Some e)]))"
  by (simp add: perform_eq split: option.splits)

lemma resolve_submit_refines:
  assumes "driver s \<noteq> None"
    and "\<forall>h l e. raises w h (FindElement l) = Some e \<longrightarrow> is_Exception e"
  shows "resolve_submit w xp s = first_found w (candidates xp) s"
proof -
  have soft: "is_Exception e" if "raises w h (FindElement l) = Some e" for h l e
    using assms(2) that by blast
  have tf: "try_find w l None s' =
     (case raises w (trace s') (FindElement l) of
        None \<Rightarrow> (Returns (Some l), with_events s' [(FindElement l, None)])
      | Some e \<Rightarrow> (Returns None, with_events s' [(FindElement l, Some e)]))"
    if "driver s' \<noteq> None" for l s'
    using that soft by (auto simp: try_find_None split: option.splits)
  have d: "driver (with_events s evs) \<noteq> None" for evs
    using assms(1) by simp
  show ?thesis
    unfolding resolve_submit_def candidates_def
    by (cases "xp = []")
       (simp_all add: andThen_def ret_def raise_exn_def tf assms(1) d try_find_Some
          first_found_Cons del: first_found.simps(2) split: option.splits)
qed

lemma first_found_trace:
  "\<exists>evs. snd (first_found w ls s) = with_events s evs \<and>
     map fst evs = map FindElement (take (length evs) ls) \<and>
     list_all (\<lambda>ev. snd ev \<noteq> None) (butlast evs) \<and>
     (case fst (first_found w ls s) of
        Returns l \<Rightarrow> evs \<noteq> [] \<and> last evs = (FindElement l, None)
      | Raises e \<Rightarrow> e = PlainException \<and> length evs = length ls \<and>
          list_all (\<lambda>ev. snd ev \<noteq> None) evs)"
proof (induction ls arbitrary: s)
  case Nil
  show ?case by (intro exI [of _ "[]"]) (simp add: with_events_def)
next
  case (Cons l ls)
  show ?case
  proof (cases "raises w (trace s) (FindElement l)")
    case None
    then show ?thesis
      unfolding first_found_Cons by (intro exI [of _ "[(FindElement l, None)]"]) simp
  next
    case (Some e)
    let ?s1 = "with_events s [(FindElement l, Some e)]"
    from Cons.IH [of ?s1] obtain evs where
      st: "snd (first_found w ls ?s1) = with_events ?s1 evs"
      and ord: "map fst evs = map FindElement (take (length evs) ls)"
      and bl: "list_all (\<lambda>ev. snd ev \<noteq> None) (butlast evs)"
      and res: "case fst (first_found w ls ?s1) of
        Returns l \<Rightarrow> evs \<noteq> [] \<and> last evs = (FindElement l, None)
      | Raises e \<Rightarrow> e = PlainException \<and> length evs = length ls \<and>
          list_all (\<lambda>ev. snd ev \<noteq> None) evs"
      by blast
    show ?thesis
      unfolding first_found_Cons using Some st ord bl res
      by (intro exI [of _ "(FindElement l, Some e) # evs"])
         (auto split: outcome.splits)
  qed
qed

lemma fill_form_needs_driver:
  "fill_form w lurl creds ff t s = (Returns u, s1) \<Longrightarrow> driver s \<noteq> None"
  unfolding fill_form_def
  by (cases "driver s") (simp_all add: andThen_def [where m = "driver_call w (Get lurl)"] driver_call_def)

lemma fill_form_driver:
  assumes "fill_form w lurl creds ff t s = (Returns u, s1)"
  shows "driver s1 \<noteq> None"
proof -
  have "advances (\<lambda>ev. True) s (snd (fill_form w lurl creds ff t s))"
    by (rule advances_fill_form) simp
  with assms fill_form_needs_driver [OF assms] show ?thesis
    by (simp add: advances_def)
qed

lemma resolve_submit_driver:
  "resolve_submit w xp s1 = (r, s2) \<Longrightarrow> driver s2 = driver s1"
  using advances_resolve_submit [of "\<lambda>ev. True" s1 w xp] by (simp add: advances_def)

lemma login_eq:
  assumes "login_url (config s) = Some lurl" "credentials (config s) = Some creds"
    "form_fields (config s) = Some ff" "session_settings (config s) = Some ss"
    "timeout ss = Some t"
  shows "login w s =
     try_except (login_body w lurl creds ff t)
       (\<lambda>e. if is_TimeoutException e then Returns False
            else if is_Exception e then Returns False
            else Raises e) s"
  using assms by (simp add: login_def andThen_def getitem_def)

lemma submit_and_check_eq:
  assumes "driver s \<noteq> None" "raises w (trace s) (Click btn) = None"
    "raises w (trace s @ [(Click btn, None)]) (Sleep 3) = None"
    "raises w (trace s @ [(Click btn, None), (Sleep 3, None)]) CurrentUrl = None"
  shows "submit_and_check w lurl btn s =
     (if url w (trace s @ [(Click btn, None), (Sleep 3, None)]) \<noteq> lurl
      then (Returns True,
        (with_events s [(Click btn, None), (Sleep 3, None), (CurrentUrl, None)])
          \<lparr>is_logged_in := True\<rparr>)
      else (Returns False,
        with_events s [(Click btn, None), (Sleep 3, None), (CurrentUrl, None)]))"
  using assms
  by (simp add: submit_and_check_def andThen_def current_url_def driver_call_def perform_eq
        with_events_def split: option.splits)

section \<open>Claims about the keepalive loop\<close>

text \<open>
  C1, as stated, fails for \<open>max_retries = 0\<close>: in a world where every refresh succeeds, zero
  consecutive failures have occurred and the counter equals \<open>max_retries\<close> from the start,
  yet after two cycles the loop is still running and has not failed.
\<close>

theorem keepalive_zero_retries_counterexample:
  "fst (keepalive_loop calm 60 0 2 0 (ready sample_config)) = Running 0
   \<and> \<not> ((fst (keepalive_loop calm 60 0 2 0 (ready sample_config)) = Exited (Returns False)) =
          sublist (replicate (nat 0) False)
            (refresh_outcomes (since (ready sample_config)
               (snd (keepalive_loop calm 60 0 2 0 (ready sample_config))))))"
  by (simp add: eval_nat_numeral keepalive_loop.simps(2) perform_eq refresh_page_eq calm_def ready_def
        with_events_def since_def)

text \<open>
  C1 (amended): for every \<open>max_retries = N\<close> and every behaviour of the browser, a keeper with
  a driver leaves the keepalive loop with failure exactly when \<open>max 1 N\<close> consecutive refresh
  failures (no success in between) have occurred, that is \<open>N\<close> of them when \<open>N \<ge> 1\<close> and one
  when \<open>N \<le> 0\<close>. It does so as soon as they have occurred: the run of failures ends the
  observed outcomes and there is none before. While the loop runs, the counter is the
  number of failures since the last success: a failed refresh increments it, a successful
  one resets it to 0.
\<close>

theorem keepalive_fails_iff_consecutive_failures:
  assumes "driver s \<noteq> None"
  shows "(fst (keepalive_loop w ri mr n 0 s) = Exited (Returns False)) =
           sublist (replicate (nat (max 1 mr)) False)
             (refresh_outcomes (since s (snd (keepalive_loop w ri mr n 0 s))))
         \<and> (fst (keepalive_loop w ri mr n 0 s) = Exited (Returns False) \<longrightarrow>
              suffix (replicate (nat (max 1 mr)) False)
                (refresh_outcomes (since s (snd (keepalive_loop w ri mr n 0 s))))
              \<and> \<not> sublist (replicate (nat (max 1 mr)) False)
                (butlast (refresh_outcomes (since s (snd (keepalive_loop w ri mr n 0 s))))))
         \<and> (\<forall>c. fst (keepalive_loop w ri mr n 0 s) = Running c \<longrightarrow>
              c = int (length (takeWhile Not
                (rev (refresh_outcomes (since s (snd (keepalive_loop w ri mr n 0 s))))))))"
proof -
  have "0 < nat (max 1 mr)" by simp
  from loop_inv [OF assms this, of w ri n] obtain evs where
    st: "snd (keepalive_loop w ri mr n 0 s) = with_events s evs"
    and ta: "tally (nat (max 1 mr)) (refresh_outcomes evs) (fst (keepalive_loop w ri mr n 0 s))"
    by auto
  from ta show ?thesis
    unfolding st since_with_events tally_def
    by (cases "fst (keepalive_loop w ri mr n 0 s)") (auto split: if_splits)
qed

theorem keepalive_fails_iff_consecutive_failures_witness:
  "driver (ready sample_config) \<noteq> None
   \<and> keepalive_loop (script_world [True, False, False] None) 60 2 5 0 (ready sample_config) =
       (Exited (Returns False), with_events (ready sample_config)
          [(Sleep 60, None), (Refresh, None),
           (Sleep 60, None), (Refresh, Some WebDriverException),
           (Sleep 60, None), (Refresh, Some WebDriverException)])
   \<and> sublist (replicate (nat (max 1 2)) False)
       (refresh_outcomes (since (ready sample_config)
          (snd (keepalive_loop (script_world [True, False, False] None) 60 2 5 0
             (ready sample_config)))))
   \<and> fst (keepalive_loop (script_world [True, False, False] None) 60 2 2 0 (ready sample_config)) =
       Running 1
   \<and> \<not> sublist (replicate (nat (max 1 2)) False)
       (refresh_outcomes (since (ready sample_config)
          (snd (keepalive_loop (script_world [True, False, False] None) 60 2 2 0
             (ready sample_config)))))"
proof -
  have d: "driver (ready sample_config) \<noteq> None"
    by (simp add: ready_def)
  have five: "keepalive_loop (script_world [True, False, False] None) 60 2 5 0 (ready sample_config) =
       (Exited (Returns False), with_events (ready sample_config)
          [(Sleep 60, None), (Refresh, None),
           (Sleep 60, None), (Refresh, Some WebDriverException),
           (Sleep 60, None), (Refresh, Some WebDriverException)])"
    by (simp add: eval_nat_numeral keepalive_loop.simps(2) perform_eq refresh_page_eq script_world_def
          ready_def with_events_def)
  have two: "fst (keepalive_loop (script_world [True, False, False] None) 60 2 2 0
       (ready sample_config)) = Running 1"
    by (simp add: eval_nat_numeral keepalive_loop.simps(2) perform_eq refresh_page_eq script_world_def
          ready_def with_events_def)
  from keepalive_fails_iff_consecutive_failures [OF d, of "script_world [True, False, False] None" 60 2 5]
    keepalive_fails_iff_consecutive_failures [OF d, of "script_world [True, False, False] None" 60 2 2]
    d five two
  show ?thesis by simp
qed

text \<open>
  C4: an interrupt received during the sleep between refreshes ends the loop with the
  result \<^verbatim>\<open>True\<close> (STOPPED), never with failure: at any state \<open>s'\<close> of the loop and for any
  value \<open>rc\<close> of the failure counter; in particular when the loop, started at \<open>s\<close>, has
  reached \<open>s'\<close> after \<open>n\<close> cycles; and \<^verbatim>\<open>keep_session_alive\<close> then returns \<^verbatim>\<open>True\<close>.
\<close>

theorem interrupt_during_sleep_stops:
  assumes "raises w (trace s') (Sleep ri) = Some KeyboardInterrupt"
  shows "keepalive_loop w ri mr (Suc m) rc s' =
           (Exited (Returns True), with_events s' [(Sleep ri, Some KeyboardInterrupt)])
       \<and> (keepalive_loop w ri mr n 0 s = (Running rc, s') \<longrightarrow>
            keepalive_loop w ri mr (n + Suc m) 0 s =
              (Exited (Returns True), with_events s' [(Sleep ri, Some KeyboardInterrupt)]))
       \<and> (session_settings (config s) = Some ss \<and> refresh_interval ss = Some ri \<and>
          max_retries ss = Some mr \<and> keepalive_loop w ri mr n 0 s = (Running rc, s') \<longrightarrow>
            keep_session_alive w (n + Suc m) s =
              (Some (Returns True), with_events s' [(Sleep ri, Some KeyboardInterrupt)]))"
proof -
  have one: "keepalive_loop w ri mr (Suc m) rc s' =
           (Exited (Returns True), with_events s' [(Sleep ri, Some KeyboardInterrupt)])"
    by (simp add: loop_sleep_raises [OF assms] on_interrupt_def)
  have run: "keepalive_loop w ri mr (n + Suc m) 0 s =
              (Exited (Returns True), with_events s' [(Sleep ri, Some KeyboardInterrupt)])"
    if "keepalive_loop w ri mr n 0 s = (Running rc, s')"
    unfolding loop_fuel_add [of w ri mr n "Suc m"] using that one by simp
  have "keep_session_alive w (n + Suc m) s =
              (Some (Returns True), with_events s' [(Sleep ri, Some KeyboardInterrupt)])"
    if "session_settings (config s) = Some ss" "refresh_interval ss = Some ri"
       "max_retries ss = Some mr" "keepalive_loop w ri mr n 0 s = (Running rc, s')"
    using run [OF that(4)] by (simp add: keep_session_alive_eq [OF that(1-3)])
  with one run show ?thesis by blast
qed

text \<open>
  The witness: two refreshes fail, so the counter stands at 2 of \<open>max_retries = 3\<close>, and the
  third sleep is interrupted.
\<close>

theorem interrupt_during_sleep_stops_witness:
  "raises (script_world [False, False] (Some 2))
      (trace (with_events (ready sample_config)
         [(Sleep 60, None), (Refresh, Some WebDriverException),
          (Sleep 60, None), (Refresh, Some WebDriverException)])) (Sleep 60) = Some KeyboardInterrupt
   \<and> keepalive_loop (script_world [False, False] (Some 2)) 60 3 2 0 (ready sample_config) =
       (Running 2, with_events (ready sample_config)
         [(Sleep 60, None), (Refresh, Some WebDriverException),
          (Sleep 60, None), (Refresh, Some WebDriverException)])
   \<and> keep_session_alive (script_world [False, False] (Some 2)) (2 + Suc 0) (ready sample_config) =
       (Some (Returns True), with_events (ready sample_config)
         [(Sleep 60, None), (Refresh, Some WebDriverException),
          (Sleep 60, None), (Refresh, Some WebDriverException),
          (Sleep 60, Some KeyboardInterrupt)])"
proof -
  let ?w = "script_world [False, False] (Some 2)"
  let ?s' = "with_events (ready sample_config)
         [(Sleep 60, None), (Refresh, Some WebDriverException),
          (Sleep 60, None), (Refresh, Some WebDriverException)]"
  have i: "raises ?w (trace ?s') (Sleep 60) = Some KeyboardInterrupt"
    by (simp add: script_world_def ready_def)
  have r: "keepalive_loop ?w 60 3 2 0 (ready sample_config) = (Running 2, ?s')"
    by (simp add: eval_nat_numeral keepalive_loop.simps(2) perform_eq refresh_page_eq script_world_def
          ready_def with_events_def)
  have c: "session_settings (config (ready sample_config)) =
      Some \<lparr>headless = Some True, timeout = Some 10, refresh_interval = Some 60, max_retries = Some 3\<rparr>"
    by (simp add: ready_def sample_config_def)
  from interrupt_during_sleep_stops [OF i, of 3 0 2 2 "ready sample_config"
      "\<lparr>headless = Some True, timeout = Some 10, refresh_interval = Some 60, max_retries = Some 3\<rparr>"]
    i r c
  show ?thesis by simp
qed

text \<open>
  C9: with \<open>max_retries = 3\<close> and the refresh outcomes fail, fail, success, fail, fail, fail,
  \<^verbatim>\<open>keep_session_alive\<close> returns \<^verbatim>\<open>False\<close> (FAILED) after exactly 6 refresh attempts, however
  many further cycles it is allowed; after 0 to 5 cycles the loop is still running, with the
  counter at 0, 1, 2, 0 (reset by the success), 1, 2.
\<close>

theorem scenario_three_retries:
  "keep_session_alive (script_world [False, False, True, False, False, False] None)
      (6 + n) (ready sample_config) =
     (Some (Returns False), with_events (ready sample_config)
        [(Sleep 60, None), (Refresh, Some WebDriverException),
         (Sleep 60, None), (Refresh, Some WebDriverException),
         (Sleep 60, None), (Refresh, None),
         (Sleep 60, None), (Refresh, Some WebDriverException),
         (Sleep 60, None), (Refresh, Some WebDriverException),
         (Sleep 60, None), (Refresh, Some WebDriverException)])
   \<and> length (filter (\<lambda>ev. fst ev = Refresh)
        (trace (snd (keep_session_alive (script_world [False, False, True, False, False, False] None)
           (6 + n) (ready sample_config))))) = 6
   \<and> map (\<lambda>m. fst (keepalive_loop (script_world [False, False, True, False, False, False] None)
                 60 3 m 0 (ready sample_config))) [0, 1, 2, 3, 4, 5] =
       [Running 0, Running 1, Running 2, Running 0, Running 1, Running 2]"
proof -
  let ?w = "script_world [False, False, True, False, False, False] None"
  let ?evs = "[(Sleep 60, None), (Refresh, Some WebDriverException),
         (Sleep 60, None), (Refresh, Some WebDriverException),
         (Sleep 60, None), (Refresh, None),
         (Sleep 60, None), (Refresh, Some WebDriverException),
         (Sleep 60, None), (Refresh, Some WebDriverException),
         (Sleep 60, None), (Refresh, Some WebDriverException)]"
  have ss: "session_settings (config (ready sample_config)) =
      Some \<lparr>headless = Some True, timeout = Some 10, refresh_interval = Some 60, max_retries = Some 3\<rparr>"
    by (simp add: ready_def sample_config_def)
  have six: "keepalive_loop ?w 60 3 6 0 (ready sample_config) =
     (Exited (Returns False), with_events (ready sample_config) ?evs)"
    by (simp add: eval_nat_numeral keepalive_loop.simps(2) perform_eq refresh_page_eq script_world_def
          ready_def with_events_def)
  have more: "keepalive_loop ?w 60 3 (6 + n) 0 (ready sample_config) =
      keepalive_loop ?w 60 3 6 0 (ready sample_config)"
    by (simp add: loop_fuel_add [of _ _ _ 6 n] six)
  have a: "keep_session_alive ?w (6 + n) (ready sample_config) =
     (Some (Returns False), with_events (ready sample_config) ?evs)"
    by (simp add: keep_session_alive_eq [OF ss] more six)
  have b: "map (\<lambda>m. fst (keepalive_loop ?w 60 3 m 0 (ready sample_config))) [0, 1, 2, 3, 4, 5] =
       [Running 0, Running 1, Running 2, Running 0, Running 1, Running 2]"
    by (simp add: eval_nat_numeral keepalive_loop.simps(2) perform_eq refresh_page_eq script_world_def
          ready_def with_events_def)
  have c: "length (filter (\<lambda>ev. fst ev = Refresh)
        (trace (snd (keep_session_alive ?w (6 + n) (ready sample_config))))) = 6"
    unfolding a by (simp add: ready_def)
  from a c b show ?thesis by (intro conjI)
qed

text \<open>
  C10: a keeper with a driver never leaves the loop with failure before a refresh has
  failed: when the loop has failed, the last two events are a completed sleep and a refresh
  that raised an \<^verbatim>\<open>Exception\<close>. With \<open>max_retries = 0\<close> the loop still sleeps and attempts a
  refresh; it fails at once when that refresh fails, and goes on when it succeeds.
\<close>

theorem keepalive_fails_only_after_failed_refresh:
  assumes "driver s \<noteq> None"
  shows "(fst (keepalive_loop w ri mr n 0 s) = Exited (Returns False) \<longrightarrow>
            (\<exists>evs e. snd (keepalive_loop w ri mr n 0 s) =
               with_events s (evs @ [(Sleep ri, None), (Refresh, Some e)]) \<and> is_Exception e))
       \<and> (raises w (trace s) (Sleep ri) = None \<and>
          raises w (trace s @ [(Sleep ri, None)]) Refresh = Some e \<and> is_Exception e \<longrightarrow>
            keepalive_loop w ri 0 (Suc n) 0 s =
              (Exited (Returns False), with_events s [(Sleep ri, None), (Refresh, Some e)]))
       \<and> (raises w (trace s) (Sleep ri) = None \<and>
          raises w (trace s @ [(Sleep ri, None)]) Refresh = None \<longrightarrow>
            keepalive_loop w ri 0 (Suc n) 0 s =
              keepalive_loop w ri 0 n 0 (with_events s [(Sleep ri, None), (Refresh, None)]))"
  using loop_failed_last [OF assms, of w ri mr n 0]
    loop_refresh_fails [OF assms, of w ri e 0 n 0] loop_refresh_ok [OF assms, of w ri 0 n 0]
  by auto

theorem keepalive_fails_only_after_failed_refresh_witness:
  "driver (ready sample_config) \<noteq> None
   \<and> raises (script_world [True, False] None) (trace (ready sample_config)) (Sleep 60) = None
   \<and> raises (script_world [True, False] None) (trace (ready sample_config) @ [(Sleep 60, None)]) Refresh = None
   \<and> keepalive_loop (script_world [True, False] None) 60 0 (Suc 1) 0 (ready sample_config) =
       (Exited (Returns False), with_events (ready sample_config)
          [(Sleep 60, None), (Refresh, None), (Sleep 60, None), (Refresh, Some WebDriverException)])
   \<and> raises (script_world [False] None) (trace (ready sample_config) @ [(Sleep 60, None)]) Refresh =
       Some WebDriverException
   \<and> keepalive_loop (script_world [False] None) 60 0 (Suc 0) 0 (ready sample_config) =
       (Exited (Returns False), with_events (ready sample_config)
          [(Sleep 60, None), (Refresh, Some WebDriverException)])"
proof -
  have d: "driver (ready sample_config) \<noteq> None"
    by (simp add: ready_def)
  have two: "keepalive_loop (script_world [True, False] None) 60 0 (Suc 1) 0 (ready sample_config) =
       (Exited (Returns False), with_events (ready sample_config)
          [(Sleep 60, None), (Refresh, None), (Sleep 60, None), (Refresh, Some WebDriverException)])"
    by (simp add: keepalive_loop.simps(2) perform_eq refresh_page_eq script_world_def
          ready_def with_events_def)
  from keepalive_fails_only_after_failed_refresh
         [OF d, where w = "script_world [True, False] None" and ri = 60 and mr = 0 and n = 2
            and e = WebDriverException]
       keepalive_fails_only_after_failed_refresh
         [OF d, where w = "script_world [True, False] None" and ri = 60 and mr = 0 and n = 1
            and e = WebDriverException]
       keepalive_fails_only_after_failed_refresh
         [OF d, where w = "script_world [False] None" and ri = 60 and mr = 0 and n = 0
            and e = WebDriverException]
       d two
  show ?thesis
    by (simp add: script_world_def ready_def with_events_def)
qed

section \<open>Claims about login\<close>

text \<open>
  C2: for every configuration, once the form is filled (so the keeper has a driver), and in
  every world where a lookup that fails raises an \<^verbatim>\<open>Exception\<close>, locating the submit control
  is the ordered fallback \<open>first_found\<close> over \<open>candidates\<close>: the configured locator as an XPath
  if it is non-empty, then the id \<^verbatim>\<open>loginbtn\<close>, then a \<^verbatim>\<open>button\<close> and then an \<^verbatim>\<open>input\<close> of
  type submit. On the history: the lookups made are an initial part of that chain, in its
  order; all but the last failed; the control returned is the one the last lookup found;
  and the exception of line 151 is raised only after all of the chain was tried and failed.
  When that happens \<^verbatim>\<open>login\<close> returns \<^verbatim>\<open>False\<close>: the exception does not leave it, and nothing
  is clicked.
\<close>

theorem submit_control_fallback:
  assumes "driver s \<noteq> None"
    and "\<forall>h l e. raises w h (FindElement l) = Some e \<longrightarrow> is_Exception e"
  shows "resolve_submit w xp s = first_found w (candidates xp) s
       \<and> (\<exists>evs. snd (resolve_submit w xp s) = with_events s evs \<and>
            map fst evs = map FindElement (take (length evs) (candidates xp)) \<and>
            list_all (\<lambda>ev. snd ev \<noteq> None) (butlast evs) \<and>
            (case fst (resolve_submit w xp s) of
               Returns l \<Rightarrow> evs \<noteq> [] \<and> last evs = (FindElement l, None)
             | Raises e \<Rightarrow> e = PlainException \<and> length evs = length (candidates xp) \<and>
                 list_all (\<lambda>ev. snd ev \<noteq> None) evs))
       \<and> (login_url (config s0) = Some lurl \<and> credentials (config s0) = Some creds \<and>
          form_fields (config s0) = Some ff \<and> session_settings (config s0) = Some ss \<and>
          timeout ss = Some t \<and> fill_form w lurl creds ff t s0 = (Returns (), s) \<and>
          xp = (case submit_button ff of None \<Rightarrow> [] | Some x \<Rightarrow> x) \<and>
          fst (resolve_submit w xp s) = Raises e \<longrightarrow>
            login w s0 = (Returns False, snd (resolve_submit w xp s)))"
proof -
  have ref: "resolve_submit w xp s = first_found w (candidates xp) s"
    using assms by (rule resolve_submit_refines)
  have tr: "\<exists>evs. snd (resolve_submit w xp s) = with_events s evs \<and>
            map fst evs = map FindElement (take (length evs) (candidates xp)) \<and>
            list_all (\<lambda>ev. snd ev \<noteq> None) (butlast evs) \<and>
            (case fst (resolve_submit w xp s) of
               Returns l \<Rightarrow> evs \<noteq> [] \<and> last evs = (FindElement l, None)
             | Raises e \<Rightarrow> e = PlainException \<and> length evs = length (candidates xp) \<and>
                 list_all (\<lambda>ev. snd ev \<noteq> None) evs)"
    unfolding ref by (rule first_found_trace)
  have lg: "login w s0 = (Returns False, snd (resolve_submit w xp s))"
    if c: "login_url (config s0) = Some lurl" "credentials (config s0) = Some creds"
      "form_fields (config s0) = Some ff" "session_settings (config s0) = Some ss"
      "timeout ss = Some t"
      and f: "fill_form w lurl creds ff t s0 = (Returns (), s)"
      and x: "xp = (case submit_button ff of None \<Rightarrow> [] | Some x \<Rightarrow> x)"
      and r: "fst (resolve_submit w xp s) = Raises e"
  proof -
    from tr r have e: "e = PlainException" by auto
    obtain s' where rs: "resolve_submit w xp s = (Raises PlainException, s')"
      using r e by (cases "resolve_submit w xp s") simp
    have "login_body w lurl creds ff t s0 = (Raises PlainException, s')"
      using f rs x by (simp add: login_body_def andThen_def)
    then show ?thesis
      unfolding login_eq [OF c] using rs by (simp add: try_except_def)
  qed
  from ref tr lg show ?thesis by blast
qed

text \<open>
  The witness: with an empty configured locator and \<^verbatim>\<open>loginbtn\<close> present the control is
  found by the second rule and nothing else is looked up; with a configured locator and
  \<^verbatim>\<open>loginbtn\<close> both missing the \<^verbatim>\<open>button\<close> rule finds it after two failures; with nothing
  to find, \<^verbatim>\<open>login\<close> returns \<^verbatim>\<open>False\<close> after the three lookups.
\<close>

theorem submit_control_fallback_witness:
  "resolve_submit calm [] (ready sample_config) =
     (Returns (ID, ''loginbtn''),
      with_events (ready sample_config) [(FindElement (ID, ''loginbtn''), None)])
   \<and> resolve_submit
       (fixed_world (\<lambda>c. if c = FindElement (XPATH, ''//form/a'') \<or> c = FindElement (ID, ''loginbtn'')
          then Some NoSuchElementException else None) ''https://example.org/home'')
       ''//form/a'' (ready sample_config) =
     (Returns (XPATH, ''//button[@type='submit']''),
      with_events (ready sample_config)
        [(FindElement (XPATH, ''//form/a''), Some NoSuchElementException),
         (FindElement (ID, ''loginbtn''), Some NoSuchElementException),
         (FindElement (XPATH, ''//button[@type='submit']''), None)])
   \<and> login
       (fixed_world (\<lambda>c. if c = FindElement (ID, ''loginbtn'') \<or>
            c = FindElement (XPATH, ''//button[@type='submit']'') \<or>
            c = FindElement (XPATH, ''//input[@type='submit']'')
          then Some NoSuchElementException else None) ''https://example.org/home'')
       (ready sample_config) =
     (Returns False,
      with_events (ready sample_config)
        [(Get ''https://example.org/login'', None),
         (WaitUntil (NAME, ''user'') 10, None), (Clear (NAME, ''user''), None),
         (SendKeys (NAME, ''user'') ''alice'', None), (FindElement (NAME, ''pass''), None),
         (Clear (NAME, ''pass''), None), (SendKeys (NAME, ''pass'') ''secret'', None),
         (FindElement (ID, ''loginbtn''), Some NoSuchElementException),
         (FindElement (XPATH, ''//button[@type='submit']''), Some NoSuchElementException),
         (FindElement (XPATH, ''//input[@type='submit']''), Some NoSuchElementException)])"
proof -
  let ?s0 = "ready sample_config"
  let ?w2 = "fixed_world (\<lambda>c. if c = FindElement (XPATH, ''//form/a'') \<or> c = FindElement (ID, ''loginbtn'')
          then Some NoSuchElementException else None) ''https://example.org/home''"
  let ?w3 = "fixed_world (\<lambda>c. if c = FindElement (ID, ''loginbtn'') \<or>
            c = FindElement (XPATH, ''//button[@type='submit']'') \<or>
            c = FindElement (XPATH, ''//input[@type='submit']'')
          then Some NoSuchElementException else None) ''https://example.org/home''"
  let ?filled = "with_events ?s0
        [(Get ''https://example.org/login'', None),
         (WaitUntil (NAME, ''user'') 10, None), (Clear (NAME, ''user''), None),
         (SendKeys (NAME, ''user'') ''alice'', None), (FindElement (NAME, ''pass''), None),
         (Clear (NAME, ''pass''), None), (SendKeys (NAME, ''pass'') ''secret'', None)]"
  let ?creds = "\<lparr>username = Some ''alice'', password = Some ''secret''\<rparr>"
  let ?ff = "\<lparr>username_field = Some ''user'', password_field = Some ''pass'',
        submit_button = Some []\<rparr>"
  let ?ss = "\<lparr>headless = Some True, timeout = Some 10,
        refresh_interval = Some 60, max_retries = Some 3\<rparr>"
  have d0: "driver ?s0 \<noteq> None" by (simp add: ready_def)
  have df: "driver ?filled \<noteq> None" by (simp add: ready_def)
  have soft1: "\<forall>h l e. raises calm h (FindElement l) = Some e \<longrightarrow> is_Exception e"
    by (simp add: calm_def)
  have soft2: "\<forall>h l e. raises ?w2 h (FindElement l) = Some e \<longrightarrow> is_Exception e"
    by (auto simp: fixed_world_def split: if_splits)
  have soft3: "\<forall>h l e. raises ?w3 h (FindElement l) = Some e \<longrightarrow> is_Exception e"
    by (auto simp: fixed_world_def split: if_splits)
  have f1: "first_found calm (candidates []) ?s0 =
     (Returns (ID, ''loginbtn''), with_events ?s0 [(FindElement (ID, ''loginbtn''), None)])"
    by (simp add: candidates_def perform_eq calm_def)
  have f2: "first_found ?w2 (candidates ''//form/a'') ?s0 =
     (Returns (XPATH, ''//button[@type='submit']''),
      with_events ?s0
        [(FindElement (XPATH, ''//form/a''), Some NoSuchElementException),
         (FindElement (ID, ''loginbtn''), Some NoSuchElementException),
         (FindElement (XPATH, ''//button[@type='submit']''), None)])"
    by (simp add: candidates_def perform_eq fixed_world_def)
  have c: "login_url (config ?s0) = Some ''https://example.org/login''"
    "credentials (config ?s0) = Some ?creds" "form_fields (config ?s0) = Some ?ff"
    "session_settings (config ?s0) = Some ?ss" "timeout ?ss = Some 10"
    by (simp_all add: ready_def sample_config_def)
  have fill: "fill_form ?w3 ''https://example.org/login'' ?creds ?ff 10 ?s0 = (Returns (), ?filled)"
    by (simp add: program_defs sample_defs)
  have x: "[] = (case submit_button ?ff of None \<Rightarrow> [] | Some x \<Rightarrow> x)" by simp
  have f3: "first_found ?w3 (candidates []) ?filled =
     (Raises PlainException, with_events ?filled
        [(FindElement (ID, ''loginbtn''), Some NoSuchElementException),
         (FindElement (XPATH, ''//button[@type='submit']''), Some NoSuchElementException),
         (FindElement (XPATH, ''//input[@type='submit']''), Some NoSuchElementException)])"
    by (simp add: candidates_def perform_eq fixed_world_def)
  note t1 = submit_control_fallback [where w = calm and s = ?s0 and xp = "[]", OF d0 soft1]
  note t2 = submit_control_fallback [where w = ?w2 and s = ?s0 and xp = "''//form/a''",
      OF d0 soft2]
  note t3 = submit_control_fallback [where w = ?w3 and s = ?filled and xp = "[]"
      and ?s0.0 = ?s0 and lurl = "''https://example.org/login''" and creds = ?creds
      and ff = ?ff and ss = ?ss and t = 10 and e = PlainException, OF df soft3]
  from t1 f1 have a: "resolve_submit calm [] ?s0 =
     (Returns (ID, ''loginbtn''), with_events ?s0 [(FindElement (ID, ''loginbtn''), None)])"
    by simp
  from t2 f2 have b: "resolve_submit ?w2 ''//form/a'' ?s0 =
     (Returns (XPATH, ''//button[@type='submit']''),
      with_events ?s0
        [(FindElement (XPATH, ''//form/a''), Some NoSuchElementException),
         (FindElement (ID, ''loginbtn''), Some NoSuchElementException),
         (FindElement (XPATH, ''//button[@type='submit']''), None)])"
    by simp
  from t3 have r3: "resolve_submit ?w3 [] ?filled = first_found ?w3 (candidates []) ?filled"
    by blast
  from t3 c fill x r3 f3 have "login ?w3 ?s0 = (Returns False, snd (resolve_submit ?w3 [] ?filled))"
    by simp
  then have cc: "login ?w3 ?s0 = (Returns False, with_events ?filled
        [(FindElement (ID, ''loginbtn''), Some NoSuchElementException),
         (FindElement (XPATH, ''//button[@type='submit']''), Some NoSuchElementException),
         (FindElement (XPATH, ''//input[@type='submit']''), Some NoSuchElementException)])"
    unfolding r3 f3 by simp
  from a b cc show ?thesis by simp
qed

text \<open>
  C3: in every run of \<^verbatim>\<open>login\<close> in which the configuration is read, the form is filled,
  the submit control is located, and the click, the settle sleep of 3 seconds and the
  reading of the URL complete, \<^verbatim>\<open>login\<close> returns \<^verbatim>\<open>True\<close> exactly when the URL the browser
  reports after the settle sleep differs from \<^verbatim>\<open>login_url\<close>, whatever that URL is; it sets
  \<^verbatim>\<open>is_logged_in\<close> in that case only.
\<close>

theorem login_succeeds_iff_url_changed:
  assumes "login_url (config s) = Some lurl" "credentials (config s) = Some creds"
    "form_fields (config s) = Some ff" "session_settings (config s) = Some ss"
    "timeout ss = Some t"
    and "fill_form w lurl creds ff t s = (Returns (), s1)"
    and "resolve_submit w (case submit_button ff of None \<Rightarrow> [] | Some x \<Rightarrow> x) s1 = (Returns btn, s2)"
    and "raises w (trace s2) (Click btn) = None"
    and "raises w (trace s2 @ [(Click btn, None)]) (Sleep 3) = None"
    and "raises w (trace s2 @ [(Click btn, None), (Sleep 3, None)]) CurrentUrl = None"
  shows "fst (login w s) = Returns (url w (trace s2 @ [(Click btn, None), (Sleep 3, None)]) \<noteq> lurl)
       \<and> trace (snd (login w s)) =
           trace s2 @ [(Click btn, None), (Sleep 3, None), (CurrentUrl, None)]
       \<and> is_logged_in (snd (login w s)) =
           (url w (trace s2 @ [(Click btn, None), (Sleep 3, None)]) \<noteq> lurl \<or> is_logged_in s2)"
proof -
  have d2: "driver s2 \<noteq> None"
    using fill_form_driver [OF assms(6)] resolve_submit_driver [OF assms(7)] by simp
  have "login_body w lurl creds ff t s = submit_and_check w lurl btn s2"
    using assms(6,7) by (simp add: login_body_def andThen_def)
  then show ?thesis
    unfolding login_eq [OF assms(1-5)] submit_and_check_eq [OF d2 assms(8-10)]
    by (simp add: try_except_def)
qed

theorem login_succeeds_iff_url_changed_witness:
  "login calm (ready sample_config) =
     (Returns True,
      (with_events (ready sample_config)
        [(Get ''https://example.org/login'', None),
         (WaitUntil (NAME, ''user'') 10, None), (Clear (NAME, ''user''), None),
         (SendKeys (NAME, ''user'') ''alice'', None), (FindElement (NAME, ''pass''), None),
         (Clear (NAME, ''pass''), None), (SendKeys (NAME, ''pass'') ''secret'', None),
         (FindElement (ID, ''loginbtn''), None), (Click (ID, ''loginbtn''), None),
         (Sleep 3, None), (CurrentUrl, None)])\<lparr>is_logged_in := True\<rparr>)
   \<and> fst (login (fixed_world (\<lambda>c. None) ''https://example.org/login'') (ready sample_config)) =
       Returns False
   \<and> is_logged_in (snd (login (fixed_world (\<lambda>c. None) ''https://example.org/login'')
       (ready sample_config))) = False"
proof -
  let ?s0 = "ready sample_config"
  let ?w = "fixed_world (\<lambda>c. None) ''https://example.org/login''"
  let ?filled = "with_events ?s0
        [(Get ''https://example.org/login'', None),
         (WaitUntil (NAME, ''user'') 10, None), (Clear (NAME, ''user''), None),
         (SendKeys (NAME, ''user'') ''alice'', None), (FindElement (NAME, ''pass''), None),
         (Clear (NAME, ''pass''), None), (SendKeys (NAME, ''pass'') ''secret'', None)]"
  let ?found = "with_events ?filled [(FindElement (ID, ''loginbtn''), None)]"
  let ?creds = "\<lparr>username = Some ''alice'', password = Some ''secret''\<rparr>"
  let ?ff = "\<lparr>username_field = Some ''user'', password_field = Some ''pass'',
        submit_button = Some []\<rparr>"
  let ?ss = "\<lparr>headless = Some True, timeout = Some 10,
        refresh_interval = Some 60, max_retries = Some 3\<rparr>"
  have c: "login_url (config ?s0) = Some ''https://example.org/login''"
    "credentials (config ?s0) = Some ?creds" "form_fields (config ?s0) = Some ?ff"
    "session_settings (config ?s0) = Some ?ss" "timeout ?ss = Some 10"
    by (simp_all add: ready_def sample_config_def)
  have fill1: "fill_form calm ''https://example.org/login'' ?creds ?ff 10 ?s0 = (Returns (), ?filled)"
    by (simp add: program_defs sample_defs)
  have res1: "resolve_submit calm (case submit_button ?ff of None \<Rightarrow> [] | Some x \<Rightarrow> x) ?filled =
      (Returns (ID, ''loginbtn''), ?found)"
    by (simp add: program_defs sample_defs)
  have fill2: "fill_form ?w ''https://example.org/login'' ?creds ?ff 10 ?s0 = (Returns (), ?filled)"
    by (simp add: program_defs sample_defs)
  have res2: "resolve_submit ?w (case submit_button ?ff of None \<Rightarrow> [] | Some x \<Rightarrow> x) ?filled =
      (Returns (ID, ''loginbtn''), ?found)"
    by (simp add: program_defs sample_defs)
  have ok1: "raises calm (trace ?found) (Click (ID, ''loginbtn'')) = None"
    "raises calm (trace ?found @ [(Click (ID, ''loginbtn''), None)]) (Sleep 3) = None"
    "raises calm (trace ?found @ [(Click (ID, ''loginbtn''), None), (Sleep 3, None)]) CurrentUrl = None"
    by (simp_all add: calm_def)
  have ok2: "raises ?w (trace ?found) (Click (ID, ''loginbtn'')) = None"
    "raises ?w (trace ?found @ [(Click (ID, ''loginbtn''), None)]) (Sleep 3) = None"
    "raises ?w (trace ?found @ [(Click (ID, ''loginbtn''), None), (Sleep 3, None)]) CurrentUrl = None"
    by (simp_all add: fixed_world_def)
  note t1 = login_succeeds_iff_url_changed [OF c fill1 res1 ok1]
  note t2 = login_succeeds_iff_url_changed [OF c fill2 res2 ok2]
  have full: "login calm ?s0 = (Returns True,
      (with_events ?s0
        [(Get ''https://example.org/login'', None),
         (WaitUntil (NAME, ''user'') 10, None), (Clear (NAME, ''user''), None),
         (SendKeys (NAME, ''user'') ''alice'', None), (FindElement (NAME, ''pass''), None),
         (Clear (NAME, ''pass''), None), (SendKeys (NAME, ''pass'') ''secret'', None),
         (FindElement (ID, ''loginbtn''), None), (Click (ID, ''loginbtn''), None),
         (Sleep 3, None), (CurrentUrl, None)])\<lparr>is_logged_in := True\<rparr>)"
    by (simp add: program_defs sample_defs)
  from t2 have "fst (login ?w ?s0) = Returns False
      \<and> is_logged_in (snd (login ?w ?s0)) = False"
    by (simp add: fixed_world_def ready_def)
  with t1 full show ?thesis by simp
qed

section \<open>Claims about the orchestrator\<close>

text \<open>
  C5: on every exit path of \<^verbatim>\<open>run\<close> after the browser was launched, whatever the result \<open>r\<close>
  (\<^verbatim>\<open>False\<close> after a failed login or navigation, \<^verbatim>\<open>True\<close> after the keepalive loop ended by
  exhaustion or interruption, or an exception raised by any phase), the browser is released
  exactly once: the history that \<^verbatim>\<open>run\<close> adds holds exactly one \<^verbatim>\<open>quit\<close>, as its last event.
  While \<^verbatim>\<open>run\<close> has not exited there is none. When the browser could not be launched,
  \<^verbatim>\<open>run\<close> exits with the exception of the setup; cleanup finds no driver and calls no \<^verbatim>\<open>quit\<close>.
\<close>

theorem cleanup_quits_exactly_once:
  "(setup_driver w s = (Returns (), s1) \<and> fst (run w fuel s) = Some r \<longrightarrow>
      length (filter (\<lambda>ev. fst ev = Quit) (since s (snd (run w fuel s)))) = 1
      \<and> fst (last (trace (snd (run w fuel s)))) = Quit)
   \<and> (setup_driver w s = (Returns (), s1) \<and> fst (run w fuel s) = None \<longrightarrow>
      filter (\<lambda>ev. fst ev = Quit) (since s (snd (run w fuel s))) = [])
   \<and> (setup_driver w s = (Raises e, s1) \<and> driver s = None \<longrightarrow>
      run w fuel s = (Some (Raises e), s1)
      \<and> filter (\<lambda>ev. fst ev = Quit) (since s (snd (run w fuel s))) = [])"
proof -
  have ok: "(fst (run w fuel s) = Some r \<longrightarrow>
      length (filter (\<lambda>ev. fst ev = Quit) (since s (snd (run w fuel s)))) = 1
      \<and> fst (last (trace (snd (run w fuel s)))) = Quit)
    \<and> (fst (run w fuel s) = None \<longrightarrow>
      filter (\<lambda>ev. fst ev = Quit) (since s (snd (run w fuel s))) = [])"
    if su: "setup_driver w s = (Returns (), s1)"
  proof -
    from run_quits [OF su, of fuel] obtain evs where
      nq: "list_all (\<lambda>ev. fst ev \<noteq> Quit) evs"
      and tr: "case fst (run w fuel s) of
          None \<Rightarrow> trace (snd (run w fuel s)) = trace s @ evs
        | Some r \<Rightarrow> trace (snd (run w fuel s)) =
            trace s @ evs @ [(Quit, raises w (trace s @ evs) Quit)]"
      by blast
    from tr no_quit_filter [OF nq] show ?thesis
      by (auto simp: since_def split: option.splits)
  qed
  have bad: "run w fuel s = (Some (Raises e), s1)
      \<and> filter (\<lambda>ev. fst ev = Quit) (since s (snd (run w fuel s))) = []"
    if su: "setup_driver w s = (Raises e, s1)" and d: "driver s = None"
  proof -
    from setup_raises [OF su] have d1: "driver s1 = None"
      and tr: "trace s1 = trace s \<or> (\<exists>hl e'. trace s1 = trace s @ [(Launch hl, Some e')])"
      using d by simp_all
    have r: "run w fuel s = (Some (Raises e), s1)"
      using d1 by (simp add: run_eq run_body_setup_raises [OF su])
    from tr show ?thesis unfolding r by (auto simp: since_def)
  qed
  from ok bad show ?thesis by blast
qed

text \<open>
  The witness takes one run for each exit path: login fails (the browser stays on the
  login page), navigation fails, the retries are exhausted, the sleep is interrupted, an
  interrupt arrives in the middle of login, and the browser cannot be launched.
\<close>

theorem cleanup_quits_exactly_once_witness:
  "run (fixed_world (\<lambda>c. None) ''https://example.org/login'') 0 (fresh sample_config) =
     (Some (Returns False), \<lparr>config = sample_config, driver = Some Chrome, is_logged_in = False,
        trace =
          [(Launch True, None), (Get ''https://example.org/login'', None),
           (WaitUntil (NAME, ''user'') 10, None), (Clear (NAME, ''user''), None),
           (SendKeys (NAME, ''user'') ''alice'', None), (FindElement (NAME, ''pass''), None),
           (Clear (NAME, ''pass''), None), (SendKeys (NAME, ''pass'') ''secret'', None),
           (FindElement (ID, ''loginbtn''), None), (Click (ID, ''loginbtn''), None),
           (Sleep 3, None), (CurrentUrl, None), (Quit, None)]\<rparr>)
   \<and> length (filter (\<lambda>ev. fst ev = Quit) (since (fresh sample_config)
        (snd (run (fixed_world (\<lambda>c. if c = Get ''https://example.org/app''
           then Some WebDriverException else None) ''https://example.org/home'') 0
           (fresh sample_config))))) = 1
   \<and> length (filter (\<lambda>ev. fst ev = Quit) (since (fresh sample_config)
        (snd (run (fixed_world (\<lambda>c. if c = Refresh then Some WebDriverException else None)
           ''https://example.org/home'') 3 (fresh sample_config))))) = 1
   \<and> length (filter (\<lambda>ev. fst ev = Quit) (since (fresh sample_config)
        (snd (run (fixed_world (\<lambda>c. if c = Sleep 60 then Some KeyboardInterrupt else None)
           ''https://example.org/home'') 1 (fresh sample_config))))) = 1
   \<and> length (filter (\<lambda>ev. fst ev = Quit) (since (fresh sample_config)
        (snd (run (fixed_world (\<lambda>c. if c = Click (ID, ''loginbtn'') then Some KeyboardInterrupt
           else None) ''https://example.org/home'') 0 (fresh sample_config))))) = 1
   \<and> run (fixed_world (\<lambda>c. if c = Launch True then Some WebDriverException else None)
        ''https://example.org/home'') 0 (fresh sample_config) =
       (Some (Raises (SystemExit 1)), \<lparr>config = sample_config, driver = None,
          is_logged_in = False, trace = [(Launch True, Some WebDriverException)]\<rparr>)"
proof -
  let ?s = "fresh sample_config"
  let ?s1 = "\<lparr>config = sample_config, driver = Some Chrome, is_logged_in = False,
        trace = [(Launch True, None)]\<rparr>"
  let ?w1 = "fixed_world (\<lambda>c. None) ''https://example.org/login''"
  let ?w2 = "fixed_world (\<lambda>c. if c = Get ''https://example.org/app''
           then Some WebDriverException else None) ''https://example.org/home''"
  let ?w3 = "fixed_world (\<lambda>c. if c = Refresh then Some WebDriverException else None)
           ''https://example.org/home''"
  let ?w4 = "fixed_world (\<lambda>c. if c = Sleep 60 then Some KeyboardInterrupt else None)
           ''https://example.org/home''"
  let ?w5 = "fixed_world (\<lambda>c. if c = Click (ID, ''loginbtn'') then Some KeyboardInterrupt
           else None) ''https://example.org/home''"
  let ?w6 = "fixed_world (\<lambda>c. if c = Launch True then Some WebDriverException else None)
        ''https://example.org/home''"
  have s1: "setup_driver ?w1 ?s = (Returns (), ?s1)"
    by (simp add: program_defs sample_defs)
  have r1: "fst (run ?w1 0 ?s) = Some (Returns False)"
    by (simp add: program_defs sample_defs)
  have s2: "setup_driver ?w2 ?s = (Returns (), ?s1)"
    by (simp add: program_defs sample_defs)
  have r2: "fst (run ?w2 0 ?s) = Some (Returns False)"
    by (simp add: program_defs sample_defs)
  have s3: "setup_driver ?w3 ?s = (Returns (), ?s1)"
    by (simp add: program_defs sample_defs)
  have r3: "fst (run ?w3 3 ?s) = Some (Returns True)"
    by (simp add: program_defs sample_defs eval_nat_numeral)
  have s4: "setup_driver ?w4 ?s = (Returns (), ?s1)"
    by (simp add: program_defs sample_defs)
  have r4: "fst (run ?w4 1 ?s) = Some (Returns True)"
    by (simp add: program_defs sample_defs)
  have s5: "setup_driver ?w5 ?s = (Returns (), ?s1)"
    by (simp add: program_defs sample_defs)
  have r5: "fst (run ?w5 0 ?s) = Some (Raises KeyboardInterrupt)"
    by (simp add: program_defs sample_defs)
  have s6: "setup_driver ?w6 ?s = (Raises (SystemExit 1),
      \<lparr>config = sample_config, driver = None, is_logged_in = False,
       trace = [(Launch True, Some WebDriverException)]\<rparr>)"
    by (simp add: program_defs sample_defs)
  have d6: "driver ?s = None"
    by (simp add: fresh_def)
  have full: "run ?w1 0 ?s =
     (Some (Returns False), \<lparr>config = sample_config, driver = Some Chrome, is_logged_in = False,
        trace =
          [(Launch True, None), (Get ''https://example.org/login'', None),
           (WaitUntil (NAME, ''user'') 10, None), (Clear (NAME, ''user''), None),
           (SendKeys (NAME, ''user'') ''alice'', None), (FindElement (NAME, ''pass''), None),
           (Clear (NAME, ''pass''), None), (SendKeys (NAME, ''pass'') ''secret'', None),
           (FindElement (ID, ''loginbtn''), None), (Click (ID, ''loginbtn''), None),
           (Sleep 3, None), (CurrentUrl, None), (Quit, None)]\<rparr>)"
    by (simp add: program_defs sample_defs)
  from cleanup_quits_exactly_once [where w = ?w2 and s = ?s and ?s1.0 = ?s1 and fuel = 0
         and r = "Returns False"] s2 r2
  have q2: "length (filter (\<lambda>ev. fst ev = Quit) (since ?s (snd (run ?w2 0 ?s)))) = 1" by blast
  from cleanup_quits_exactly_once [where w = ?w3 and s = ?s and ?s1.0 = ?s1 and fuel = 3
         and r = "Returns True"] s3 r3
  have q3: "length (filter (\<lambda>ev. fst ev = Quit) (since ?s (snd (run ?w3 3 ?s)))) = 1" by blast
  from cleanup_quits_exactly_once [where w = ?w4 and s = ?s and ?s1.0 = ?s1 and fuel = 1
         and r = "Returns True"] s4 r4
  have q4: "length (filter (\<lambda>ev. fst ev = Quit) (since ?s (snd (run ?w4 1 ?s)))) = 1" by blast
  from cleanup_quits_exactly_once [where w = ?w5 and s = ?s and ?s1.0 = ?s1 and fuel = 0
         and r = "Raises KeyboardInterrupt"] s5 r5
  have q5: "length (filter (\<lambda>ev. fst ev = Quit) (since ?s (snd (run ?w5 0 ?s)))) = 1" by blast
  from cleanup_quits_exactly_once [where w = ?w6 and s = ?s and fuel = 0
         and e = "SystemExit 1"
         and ?s1.0 = "\<lparr>config = sample_config, driver = None, is_logged_in = False,
            trace = [(Launch True, Some WebDriverException)]\<rparr>"] s6 d6
  have q6: "run ?w6 0 ?s = (Some (Raises (SystemExit 1)),
      \<lparr>config = sample_config, driver = None, is_logged_in = False,
       trace = [(Launch True, Some WebDriverException)]\<rparr>)" by blast
  from full q2 q3 q4 q5 q6 show ?thesis by (intro conjI)
qed

text \<open>
  C8: \<^verbatim>\<open>run\<close> goes through login, navigation and keepalive in this order, each phase
  starting from the state the one before left. When login returns \<^verbatim>\<open>False\<close> the body ends
  there and the only call after login is the \<^verbatim>\<open>quit\<close> of cleanup: navigation is not
  attempted. When navigation returns \<^verbatim>\<open>False\<close> the body ends there and the only call after
  it is \<^verbatim>\<open>quit\<close>: the keepalive loop is not entered (no sleep, no refresh). Only when both
  return \<^verbatim>\<open>True\<close> does \<^verbatim>\<open>keep_session_alive\<close> run, on the history navigation left.
\<close>

theorem phases_in_order:
  assumes "setup_driver w s = (Returns (), s1)"
  shows "(login w s1 = (Returns False, s2) \<longrightarrow>
            run_body w fuel s = (Some (Returns False), s2)
            \<and> trace (snd (run w fuel s)) = trace s2 @ [(Quit, raises w (trace s2) Quit)])
       \<and> (login w s1 = (Returns True, s2) \<and> navigate_to_session_url w s2 = (Returns False, s3) \<longrightarrow>
            run_body w fuel s = (Some (Returns False), s3)
            \<and> trace (snd (run w fuel s)) = trace s3 @ [(Quit, raises w (trace s3) Quit)])
       \<and> (login w s1 = (Returns True, s2) \<and> navigate_to_session_url w s2 = (Returns True, s3) \<longrightarrow>
            run_body w fuel s =
              (case keep_session_alive w fuel s3 of
                 (None, s4) \<Rightarrow> (None, s4)
               | (Some (Raises e), s4) \<Rightarrow> (Some (Raises e), s4)
               | (Some (Returns kept), s4) \<Rightarrow> (Some (Returns True), s4))
            \<and> prefix (trace s1) (trace s2) \<and> prefix (trace s2) (trace s3)
            \<and> prefix (trace s3) (trace (snd (keep_session_alive w fuel s3))))"
proof -
  from setup_returns [OF assms] have d1: "driver s1 = Some Chrome" by simp
  have a2: "advances (\<lambda>ev. True) s1 (snd (login w s1))"
    by (rule advances_login) simp
  have a3: "advances (\<lambda>ev. True) s2 (snd (navigate_to_session_url w s2))"
    by (rule advances_navigate) simp
  have a4: "advances (\<lambda>ev. True) s3 (snd (keep_session_alive w fuel s3))"
    by (rule advances_keep_session_alive) simp
  have one: "run_body w fuel s = (Some (Returns False), s2)
            \<and> trace (snd (run w fuel s)) = trace s2 @ [(Quit, raises w (trace s2) Quit)]"
    if l: "login w s1 = (Returns False, s2)"
  proof -
    have b: "run_body w fuel s = (Some (Returns False), s2)"
      using assms l by (simp add: run_body_def)
    have "driver s2 \<noteq> None"
      using advances_driver [OF a2] l d1 by simp
    with b run_after_body [OF b] show ?thesis by simp
  qed
  have two: "run_body w fuel s = (Some (Returns False), s3)
            \<and> trace (snd (run w fuel s)) = trace s3 @ [(Quit, raises w (trace s3) Quit)]"
    if l: "login w s1 = (Returns True, s2)"
      and n: "navigate_to_session_url w s2 = (Returns False, s3)"
  proof -
    have b: "run_body w fuel s = (Some (Returns False), s3)"
      using assms l n by (simp add: run_body_def)
    have "driver s3 \<noteq> None"
      using advances_driver [OF a2] advances_driver [OF a3] l n d1 by simp
    with b run_after_body [OF b] show ?thesis by simp
  qed
  have three: "run_body w fuel s =
              (case keep_session_alive w fuel s3 of
                 (None, s4) \<Rightarrow> (None, s4)
               | (Some (Raises e), s4) \<Rightarrow> (Some (Raises e), s4)
               | (Some (Returns kept), s4) \<Rightarrow> (Some (Returns True), s4))
            \<and> prefix (trace s1) (trace s2) \<and> prefix (trace s2) (trace s3)
            \<and> prefix (trace s3) (trace (snd (keep_session_alive w fuel s3)))"
    if l: "login w s1 = (Returns True, s2)"
      and n: "navigate_to_session_url w s2 = (Returns True, s3)"
  proof -
    have b: "run_body w fuel s =
              (case keep_session_alive w fuel s3 of
                 (None, s4) \<Rightarrow> (None, s4)
               | (Some (Raises e), s4) \<Rightarrow> (Some (Raises e), s4)
               | (Some (Returns kept), s4) \<Rightarrow> (Some (Returns True), s4))"
      using assms l n by (simp add: run_body_def)
    show ?thesis
      using b advances_prefix [OF a2] advances_prefix [OF a3] advances_prefix [OF a4] l n
      by simp
  qed
  from one two three show ?thesis by blast
qed

text \<open>
  The witness: a run in which login fails (the browser stays on the login page), one in
  which navigation fails, and one in which both succeed and the loop has made one cycle.
\<close>

theorem phases_in_order_witness:
  "fst (login (fixed_world (\<lambda>c. None) ''https://example.org/login'')
       \<lparr>config = sample_config, driver = Some Chrome, is_logged_in = False,
          trace = [(Launch True, None)]\<rparr>) = Returns False
   \<and> trace (snd (run (fixed_world (\<lambda>c. None) ''https://example.org/login'') 1
         (fresh sample_config))) =
       [(Launch True, None), (Get ''https://example.org/login'', None),
           (WaitUntil (NAME, ''user'') 10, None), (Clear (NAME, ''user''), None),
           (SendKeys (NAME, ''user'') ''alice'', None), (FindElement (NAME, ''pass''), None),
           (Clear (NAME, ''pass''), None), (SendKeys (NAME, ''pass'') ''secret'', None),
           (FindElement (ID, ''loginbtn''), None), (Click (ID, ''loginbtn''), None),
           (Sleep 3, None), (CurrentUrl, None),
        (Quit, None)]
   \<and> fst (navigate_to_session_url
         (fixed_world (\<lambda>c. if c = Get ''https://example.org/app''
            then Some WebDriverException else None) ''https://example.org/home'')
         \<lparr>config = sample_config, driver = Some Chrome, is_logged_in = True,
          trace = [(Launch True, None), (Get ''https://example.org/login'', None),
           (WaitUntil (NAME, ''user'') 10, None), (Clear (NAME, ''user''), None),
           (SendKeys (NAME, ''user'') ''alice'', None), (FindElement (NAME, ''pass''), None),
           (Clear (NAME, ''pass''), None), (SendKeys (NAME, ''pass'') ''secret'', None),
           (FindElement (ID, ''loginbtn''), None), (Click (ID, ''loginbtn''), None),
           (Sleep 3, None), (CurrentUrl, None)]\<rparr>) = Returns False
   \<and> trace (snd (run (fixed_world (\<lambda>c. if c = Get ''https://example.org/app''
           then Some WebDriverException else None) ''https://example.org/home'') 1
           (fresh sample_config))) =
       [(Launch True, None), (Get ''https://example.org/login'', None),
           (WaitUntil (NAME, ''user'') 10, None), (Clear (NAME, ''user''), None),
           (SendKeys (NAME, ''user'') ''alice'', None), (FindElement (NAME, ''pass''), None),
           (Clear (NAME, ''pass''), None), (SendKeys (NAME, ''pass'') ''secret'', None),
           (FindElement (ID, ''loginbtn''), None), (Click (ID, ''loginbtn''), None),
           (Sleep 3, None), (CurrentUrl, None),
        (Get ''https://example.org/app'', Some WebDriverException), (Quit, None)]
   \<and> run_body calm 1 (fresh sample_config) =
       (None, \<lparr>config = sample_config, driver = Some Chrome, is_logged_in = True,
        trace =
          [(Launch True, None), (Get ''https://example.org/login'', None),
           (WaitUntil (NAME, ''user'') 10, None), (Clear (NAME, ''user''), None),
           (SendKeys (NAME, ''user'') ''alice'', None), (FindElement (NAME, ''pass''), None),
           (Clear (NAME, ''pass''), None), (SendKeys (NAME, ''pass'') ''secret'', None),
           (FindElement (ID, ''loginbtn''), None), (Click (ID, ''loginbtn''), None),
           (Sleep 3, None), (CurrentUrl, None), (Get ''https://example.org/app'', None),
           (Sleep 2, None), (Sleep 60, None), (Refresh, None)]\<rparr>)"
proof -
  let ?s = "fresh sample_config"
  let ?s1 = "\<lparr>config = sample_config, driver = Some Chrome, is_logged_in = False,
        trace = [(Launch True, None)]\<rparr>"
  let ?login = "[(Launch True, None), (Get ''https://example.org/login'', None),
           (WaitUntil (NAME, ''user'') 10, None), (Clear (NAME, ''user''), None),
           (SendKeys (NAME, ''user'') ''alice'', None), (FindElement (NAME, ''pass''), None),
           (Clear (NAME, ''pass''), None), (SendKeys (NAME, ''pass'') ''secret'', None),
           (FindElement (ID, ''loginbtn''), None), (Click (ID, ''loginbtn''), None),
           (Sleep 3, None), (CurrentUrl, None)]"
  let ?s2f = "\<lparr>config = sample_config, driver = Some Chrome, is_logged_in = False,
        trace = ?login\<rparr>"
  let ?s2 = "\<lparr>config = sample_config, driver = Some Chrome, is_logged_in = True,
        trace = ?login\<rparr>"
  let ?s3f = "\<lparr>config = sample_config, driver = Some Chrome, is_logged_in = True,
        trace = ?login @ [(Get ''https://example.org/app'', Some WebDriverException)]\<rparr>"
  let ?s3 = "\<lparr>config = sample_config, driver = Some Chrome, is_logged_in = True,
        trace = ?login @ [(Get ''https://example.org/app'', None), (Sleep 2, None)]\<rparr>"
  let ?w1 = "fixed_world (\<lambda>c. None) ''https://example.org/login''"
  let ?w2 = "fixed_world (\<lambda>c. if c = Get ''https://example.org/app''
           then Some WebDriverException else None) ''https://example.org/home''"
  have su1: "setup_driver ?w1 ?s = (Returns (), ?s1)"
    by (simp add: program_defs sample_defs)
  have l1: "login ?w1 ?s1 = (Returns False, ?s2f)"
    by (simp add: program_defs sample_defs)
  have su2: "setup_driver ?w2 ?s = (Returns (), ?s1)"
    by (simp add: program_defs sample_defs)
  have l2: "login ?w2 ?s1 = (Returns True, ?s2)"
    by (simp add: program_defs sample_defs)
  have n2: "navigate_to_session_url ?w2 ?s2 = (Returns False, ?s3f)"
    by (simp add: program_defs sample_defs)
  have su3: "setup_driver calm ?s = (Returns (), ?s1)"
    by (simp add: program_defs sample_defs)
  have l3: "login calm ?s1 = (Returns True, ?s2)"
    by (simp add: program_defs sample_defs)
  have n3: "navigate_to_session_url calm ?s2 = (Returns True, ?s3)"
    by (simp add: program_defs sample_defs)
  have k3: "keep_session_alive calm 1 ?s3 =
      (None, \<lparr>config = sample_config, driver = Some Chrome, is_logged_in = True,
        trace = ?login @ [(Get ''https://example.org/app'', None), (Sleep 2, None),
           (Sleep 60, None), (Refresh, None)]\<rparr>)"
    by (simp add: program_defs sample_defs)
  from phases_in_order [OF su1, where ?s2.0 = ?s2f and fuel = 1] l1
  have "trace (snd (run ?w1 1 ?s)) = trace ?s2f @ [(Quit, raises ?w1 (trace ?s2f) Quit)]"
    by blast
  then have c1: "trace (snd (run ?w1 1 ?s)) = ?login @ [(Quit, None)]"
    by (simp add: fixed_world_def)
  from phases_in_order [OF su2, where ?s2.0 = ?s2 and ?s3.0 = ?s3f and fuel = 1] l2 n2
  have "trace (snd (run ?w2 1 ?s)) = trace ?s3f @ [(Quit, raises ?w2 (trace ?s3f) Quit)]"
    by blast
  then have c2: "trace (snd (run ?w2 1 ?s)) =
      ?login @ [(Get ''https://example.org/app'', Some WebDriverException), (Quit, None)]"
    by (simp add: fixed_world_def)
  from phases_in_order [OF su3, where ?s2.0 = ?s2 and ?s3.0 = ?s3 and fuel = 1] l3 n3
  have "run_body calm 1 ?s =
              (case keep_session_alive calm 1 ?s3 of
                 (None, s4) \<Rightarrow> (None, s4)
               | (Some (Raises e), s4) \<Rightarrow> (Some (Raises e), s4)
               | (Some (Returns kept), s4) \<Rightarrow> (Some (Returns True), s4))"
    by blast
  then have c3: "run_body calm 1 ?s =
      (None, \<lparr>config = sample_config, driver = Some Chrome, is_logged_in = True,
        trace = ?login @ [(Get ''https://example.org/app'', None), (Sleep 2, None),
           (Sleep 60, None), (Refresh, None)]\<rparr>)"
    unfolding k3 by simp
  from l1 c1 n2 c2 c3 show ?thesis by simp
qed

section \<open>Claims about the configuration and the process\<close>

text \<open>
  C6, as stated, fails: a configuration without \<^verbatim>\<open>credentials.password\<close> is returned by
  the loader as it is; the browser is launched, the login page is opened and the form is
  filled up to the password field, where the \<open>KeyError\<close> makes \<^verbatim>\<open>login\<close> return \<^verbatim>\<open>False\<close>; the
  process ends with exit code 0.
\<close>

theorem missing_field_counterexample:
  "load_config (Inr missing_password) = Returns missing_password
   \<and> process (Inr missing_password) calm 0 =
       Some (0, [(Launch True, None), (Get ''https://example.org/login'', None),
         (WaitUntil (NAME, ''user'') 10, None), (Clear (NAME, ''user''), None),
         (SendKeys (NAME, ''user'') ''alice'', None), (FindElement (NAME, ''pass''), None),
         (Clear (NAME, ''pass''), None), (Quit, None)])"
  by (simp add: process_def program_defs sample_defs missing_password_def)

text \<open>
  C6 (amended): when the file is not found or is not valid JSON the loader fails: the
  process ends with exit code 1 and no call to the browser (or any other collaborator) has
  been made. The loader checks no field: every parsed configuration is returned as it is.
  A configuration without \<^verbatim>\<open>session_settings\<close> still ends the process with exit code 1
  before any call, through the \<open>KeyError\<close> that driver setup does not catch.
\<close>

theorem loader_fails_on_unreadable_file_only:
  "process (Inl FileNotFoundError) w fuel = Some (1, [])
   \<and> process (Inl JSONDecodeError) w fuel = Some (1, [])
   \<and> load_config (Inr cfg) = Returns cfg
   \<and> (session_settings cfg = None \<longrightarrow> process (Inr cfg) w fuel = Some (1, []))"
proof -
  have "process (Inr cfg) w fuel = Some (1, [])" if "session_settings cfg = None"
    using that
    by (simp add: process_def main_eq run_def run_body_def setup_driver_eq cleanup_def fresh_def)
  then show ?thesis
    by (simp add: process_load_failure load_config_def)
qed

theorem loader_fails_on_unreadable_file_only_witness:
  "session_settings (sample_config\<lparr>session_settings := None\<rparr>) = None
   \<and> process (Inr (sample_config\<lparr>session_settings := None\<rparr>)) calm 5 = Some (1, [])
   \<and> process (Inl JSONDecodeError) calm 5 = Some (1, [])"
  using loader_fails_on_unreadable_file_only
          [where cfg = "sample_config\<lparr>session_settings := None\<rparr>" and w = calm and fuel = 5]
  by simp

text \<open>
  C7, as stated, fails: when login fails (the browser is still on the login page after the
  settle period) \<^verbatim>\<open>run\<close> returns \<^verbatim>\<open>False\<close>, and the process ends with exit code 0; the same
  when navigation fails.
\<close>

theorem exit_code_counterexample:
  "fst (run (fixed_world (\<lambda>c. None) ''https://example.org/login'') 0 (fresh sample_config)) =
     Some (Returns False)
   \<and> map_option fst (process (Inr sample_config)
        (fixed_world (\<lambda>c. None) ''https://example.org/login'') 0) = Some 0
   \<and> fst (run (fixed_world (\<lambda>c. if c = Get ''https://example.org/app''
          then Some WebDriverException else None) ''https://example.org/home'') 0
        (fresh sample_config)) = Some (Returns False)
   \<and> map_option fst (process (Inr sample_config)
        (fixed_world (\<lambda>c. if c = Get ''https://example.org/app''
          then Some WebDriverException else None) ''https://example.org/home'') 0) = Some 0"
  by (simp add: process_def program_defs sample_defs)

text \<open>
  C7 (amended): the process exit code is 0 whenever \<^verbatim>\<open>run\<close> returns, whatever it returns:
  after a clean interruption, and equally after a failed login or navigation, since \<^verbatim>\<open>main\<close>
  discards the result of \<^verbatim>\<open>run\<close>. It is 1 on a configuration load failure. When an
  exception leaves \<^verbatim>\<open>run\<close>, the exit code is the one the Python runtime gives that exception.
\<close>

theorem exit_code_ignores_run_result:
  "(fst (run w fuel (fresh cfg)) = Some (Returns b) \<longrightarrow>
      map_option fst (process (Inr cfg) w fuel) = Some 0)
   \<and> process (Inl FileNotFoundError) w fuel = Some (1, [])
   \<and> process (Inl JSONDecodeError) w fuel = Some (1, [])
   \<and> (fst (run w fuel (fresh cfg)) = Some (Raises e) \<longrightarrow>
      map_option fst (process (Inr cfg) w fuel) = Some (exit_status (Raises e)))"
proof -
  have a: "map_option fst (process (Inr cfg) w fuel) = Some 0"
    if "fst (run w fuel (fresh cfg)) = Some (Returns b)"
    using that by (cases "run w fuel (fresh cfg)") (simp add: process_def main_eq)
  have b: "map_option fst (process (Inr cfg) w fuel) = Some (exit_status (Raises e))"
    if "fst (run w fuel (fresh cfg)) = Some (Raises e)"
    using that by (cases "run w fuel (fresh cfg)") (simp add: process_def main_eq)
  from a b show ?thesis
    by (simp add: process_load_failure)
qed

text \<open>
  The witness: an interrupt during the first keepalive sleep, a failed login, and a driver
  that cannot be launched.
\<close>

theorem exit_code_ignores_run_result_witness:
  "fst (run (fixed_world (\<lambda>c. if c = Sleep 60 then Some KeyboardInterrupt else None)
          ''https://example.org/home'') 1 (fresh sample_config)) = Some (Returns True)
   \<and> map_option fst (process (Inr sample_config)
        (fixed_world (\<lambda>c. if c = Sleep 60 then Some KeyboardInterrupt else None)
          ''https://example.org/home'') 1) = Some 0
   \<and> fst (run (fixed_world (\<lambda>c. None) ''https://example.org/login'') 1 (fresh sample_config)) =
       Some (Returns False)
   \<and> map_option fst (process (Inr sample_config)
        (fixed_world (\<lambda>c. None) ''https://example.org/login'') 1) = Some 0
   \<and> fst (run (fixed_world (\<lambda>c. if c = Launch True then Some WebDriverException else None)
          ''https://example.org/home'') 1 (fresh sample_config)) = Some (Raises (SystemExit 1))
   \<and> map_option fst (process (Inr sample_config)
        (fixed_world (\<lambda>c. if c = Launch True then Some WebDriverException else None)
          ''https://example.org/home'') 1) = Some 1"
proof -
  let ?w1 = "fixed_world (\<lambda>c. if c = Sleep 60 then Some KeyboardInterrupt else None)
          ''https://example.org/home''"
  let ?w2 = "fixed_world (\<lambda>c. None) ''https://example.org/login''"
  let ?w3 = "fixed_world (\<lambda>c. if c = Launch True then Some WebDriverException else None)
          ''https://example.org/home''"
  have r1: "fst (run ?w1 1 (fresh sample_config)) = Some (Returns True)"
    by (simp add: program_defs sample_defs)
  have r2: "fst (run ?w2 1 (fresh sample_config)) = Some (Returns False)"
    by (simp add: program_defs sample_defs)
  have r3: "fst (run ?w3 1 (fresh sample_config)) = Some (Raises (SystemExit 1))"
    by (simp add: program_defs sample_defs)
  from exit_code_ignores_run_result [where w = ?w1 and fuel = 1 and cfg = sample_config
         and b = True] r1
  have p1: "map_option fst (process (Inr sample_config) ?w1 1) = Some 0" by blast
  from exit_code_ignores_run_result [where w = ?w2 and fuel = 1 and cfg = sample_config
         and b = False] r2
  have p2: "map_option fst (process (Inr sample_config) ?w2 1) = Some 0" by blast
  from exit_code_ignores_run_result [where w = ?w3 and fuel = 1 and cfg = sample_config
         and e = "SystemExit 1"] r3
  have p3: "map_option fst (process (Inr sample_config) ?w3 1) = Some 1" by simp
  from r1 p1 r2 p2 r3 p3 show ?thesis by (intro conjI)
qed

end
